theory Spec2Isabelle
  imports Main "HOL-Library.Sublist"
begin

section \<open>Python values used by \<open>era_py/text.py\<close>\<close>

text \<open>
  A Python \<open>str\<close> is a sequence of Unicode code points, so a string is a list of code
  points (natural numbers); \<open>[97, 10, 98]\<close> is \<open>"a\nb"\<close>. Python integers are
  unbounded, so they are \<open>int\<close>. Exceptions are values of \<open>error\<close>.
\<close>

type_synonym codepoint = nat
type_synonym pystr = "codepoint list"

datatype error = TypeError | ValueError | IndexError

text \<open>
  The line boundaries of \<open>str.splitlines\<close>: LF, VT, FF, CR, FS, GS, RS, NEL, LS and PS
  (CR LF counts as one boundary, see \<open>splitlines_from\<close>).
\<close>

definition is_linebreak :: "codepoint \<Rightarrow> bool" where
  "is_linebreak c \<longleftrightarrow>
     c = 10 \<or> c = 11 \<or> c = 12 \<or> c = 13 \<or> c = 28 \<or> c = 29 \<or> c = 30 \<or> c = 133
     \<or> c = 8232 \<or> c = 8233"

text \<open>
  \<open>str.splitlines()\<close> with \<open>keepends=False\<close>: scan to the next line boundary, emit the
  characters before it (\<open>cur\<close>), skip the boundary (two characters for CR LF) and go
  on. What is left at the end of the string is a line only when it is not empty.
\<close>

fun splitlines_from :: "pystr \<Rightarrow> pystr \<Rightarrow> pystr list" where
  "splitlines_from cur [] = (if cur = [] then [] else [cur])"
| "splitlines_from cur (c # cs) =
     (if is_linebreak c then
        (case cs of
           d # ds \<Rightarrow>
             if c = 13 \<and> d = 10 then cur # splitlines_from [] ds
             else cur # splitlines_from [] cs
         | [] \<Rightarrow> cur # splitlines_from [] cs)
      else splitlines_from (cur @ [c]) cs)"

definition splitlines :: "pystr \<Rightarrow> pystr list" where
  "splitlines s = splitlines_from [] s"

text \<open>
  The decimal digits of a natural number, most significant first (\<open>48\<close> is \<open>"0"\<close>).
\<close>

fun str_nat :: "nat \<Rightarrow> pystr" where
  "str_nat n = (if n < 10 then [48 + n] else str_nat (n div 10) @ [48 + n mod 10])"

declare str_nat.simps [simp del]

text \<open>
  CPython refuses to convert an integer of more than \<open>sys.int_info.default_max_str_digits\<close>
  decimal digits to a string: \<open>str(i)\<close> and the format type \<open>d\<close> raise \<open>ValueError\<close> for
  \<open>\<bar>i\<bar> \<ge> 10 ** 4300\<close>.
\<close>

definition int_max_str_digits :: nat where
  "int_max_str_digits = 4300"

text \<open>\<open>str(i)\<close> for an integer: decimal digits, with a leading minus sign when negative.\<close>

definition str_int :: "int \<Rightarrow> error + pystr" where
  "str_int i =
     (if 10 ^ int_max_str_digits \<le> \<bar>i\<bar> then Inl ValueError
      else Inr (if i < 0 then 45 # str_nat (nat (- i)) else str_nat (nat i)))"

text \<open>
  The replacement field \<open>{i:0{pad}d}\<close> of an f-string. The format specification is the
  text \<open>"0" + str(pad) + "d"\<close>: a negative \<open>pad\<close> makes it invalid, and a width of
  \<open>2 ** 63\<close> or more has too many digits for the parser (\<open>PY_SSIZE_T_MAX\<close> is
  \<open>2 ** 63 - 1\<close>); both raise \<open>ValueError\<close>. Otherwise the number is zero-padded, after
  its sign, to a total width of \<open>pad\<close> characters, the sign included; a number wider than
  \<open>pad\<close> is not cut. (Running out of memory for a very wide field is not modelled.)
\<close>

definition format_0d :: "int \<Rightarrow> int \<Rightarrow> error + pystr" where
  "format_0d pad i =
     (if pad < 0 \<or> 2 ^ 63 \<le> pad then Inl ValueError
      else if 10 ^ int_max_str_digits \<le> \<bar>i\<bar> then Inl ValueError
      else Inr (if i < 0
                then 45 # replicate (nat pad - 1 - length (str_nat (nat (- i)))) 48
                          @ str_nat (nat (- i))
                else replicate (nat pad - length (str_nat (nat i))) 48 @ str_nat (nat i)))"

subsection \<open>List indexing and slicing\<close>

text \<open>\<open>xs[i]\<close> for an integer \<open>i\<close>: a negative \<open>i\<close> counts from the end.\<close>

definition list_getitem :: "'a list \<Rightarrow> int \<Rightarrow> error + 'a" where
  "list_getitem xs i =
     (let n = int (length xs); j = (if i < 0 then i + n else i)
      in if j < 0 \<or> n \<le> j then Inl IndexError else Inr (xs ! nat j))"

text \<open>A slice object \<open>slice(start, stop, step)\<close>; \<open>None\<close> is an omitted part.\<close>

datatype slice = Slice "int option" "int option" "int option"

text \<open>
  The clamping of \<open>slice.indices(n)\<close> for a non-zero step, and the number of selected
  positions.
\<close>

definition adjust_indices :: "int \<Rightarrow> int option \<Rightarrow> int option \<Rightarrow> int \<Rightarrow> int \<times> int" where
  "adjust_indices n start stop step =
     (let lower = (if step < 0 then - 1 else 0);
          upper = (if step < 0 then n - 1 else n);
          s = (case start of
                 None \<Rightarrow> if step < 0 then upper else lower
               | Some a \<Rightarrow> if a < 0 then max (a + n) lower else min a upper);
          e = (case stop of
                 None \<Rightarrow> if step < 0 then lower else upper
               | Some b \<Rightarrow> if b < 0 then max (b + n) lower else min b upper)
      in (s, e))"

definition slicelength :: "int \<Rightarrow> int \<Rightarrow> int \<Rightarrow> nat" where
  "slicelength s e step =
     (if step < 0 then (if e < s then nat ((s - e - 1) div (- step) + 1) else 0)
      else (if s < e then nat ((e - s - 1) div step + 1) else 0))"

text \<open>
  The positions that \<open>xs[start:stop:step]\<close> reads in a list of length \<open>n\<close>, in the
  order in which it reads them; a zero step raises \<open>ValueError\<close>.
\<close>

definition slice_positions :: "nat \<Rightarrow> slice \<Rightarrow> error + nat list" where
  "slice_positions n sl =
     (case sl of Slice start stop step_opt \<Rightarrow>
        (let step = (case step_opt of None \<Rightarrow> 1 | Some k \<Rightarrow> k)
         in if step = 0 then Inl ValueError
            else (case adjust_indices (int n) start stop step of
                    (s, e) \<Rightarrow>
                      Inr (map (\<lambda>k. nat (s + int k * step))
                             [0..<slicelength s e step]))))"

definition list_slice :: "'a list \<Rightarrow> slice \<Rightarrow> error + 'a list" where
  "list_slice xs sl =
     (case slice_positions (length xs) sl of
        Inl e \<Rightarrow> Inl e
      | Inr ps \<Rightarrow> Inr (map (\<lambda>p. xs ! p) ps))"

section \<open>The class \<open>NumberedLines\<close>\<close>

record NumberedLines =
  lines :: "pystr list"
  index :: "int list"

text \<open>
  The first argument of the constructor: a \<open>str\<close>, an iterable (whose elements are
  strings or anything else) or an object that is neither.
\<close>

datatype item = StrItem pystr | NonStr

datatype lines_arg = Str pystr | Iterable "item list" | NotIterable

text \<open>
  The comprehension
  \<open>[ln for item in items if isinstance(item, str) for ln in item.splitlines()]\<close>.
\<close>

fun flatten_items :: "item list \<Rightarrow> pystr list" where
  "flatten_items [] = []"
| "flatten_items (StrItem s # items) = splitlines s @ flatten_items items"
| "flatten_items (NonStr # items) = flatten_items items"

text \<open>\<open>NumberedLines.__init__(lines, index=None)\<close>.\<close>

definition init :: "lines_arg \<Rightarrow> int list option \<Rightarrow> error + NumberedLines" where
  "init lines_in index_in =
     (case (case lines_in of
              Str s \<Rightarrow> Inr (splitlines s)
            | Iterable items \<Rightarrow> Inr (flatten_items items)
            | NotIterable \<Rightarrow> Inl TypeError) of
        Inl e \<Rightarrow> Inl e
      | Inr lines_list \<Rightarrow>
          (case index_in of
             None \<Rightarrow>
               Inr \<lparr>lines = lines_list, index = map int [0..<length lines_list]\<rparr>
           | Some index_list \<Rightarrow>
               if length index_list \<noteq> length lines_list then Inl ValueError
               else Inr \<lparr>lines = lines_list, index = index_list\<rparr>))"

text \<open>\<open>__len__\<close> and \<open>to_list\<close>.\<close>

definition len :: "NumberedLines \<Rightarrow> nat" where
  "len self = length (lines self)"

definition to_list :: "NumberedLines \<Rightarrow> pystr list" where
  "to_list self = lines self"

text \<open>
  \<open>__getitem__\<close>: a slice key builds a new object through the constructor, from the
  sliced \<open>lines\<close> (a list of strings) and the sliced \<open>index\<close>; an integer key reads
  \<open>lines\<close>.
\<close>

datatype key = IntKey int | SliceKey slice

datatype got = Line pystr | Sub NumberedLines

definition getitem :: "NumberedLines \<Rightarrow> key \<Rightarrow> error + got" where
  "getitem self k =
     (case k of
        SliceKey sl \<Rightarrow>
          (case list_slice (lines self) sl of
             Inl e \<Rightarrow> Inl e
           | Inr ls \<Rightarrow>
               (case list_slice (index self) sl of
                  Inl e \<Rightarrow> Inl e
                | Inr ix \<Rightarrow>
                    (case init (Iterable (map StrItem ls)) (Some ix) of
                       Inl e \<Rightarrow> Inl e
                     | Inr r \<Rightarrow> Inr (Sub r))))
      | IntKey i \<Rightarrow>
          (case list_getitem (lines self) i of
             Inl e \<Rightarrow> Inl e
           | Inr l \<Rightarrow> Inr (Line l)))"

text \<open>
  The comprehension \<open>[f"{i:0{pad}d}: {line}" for i, line in zip(self.index, self.lines)]\<close>
  of \<open>format\<close>: the first entry that cannot be formatted raises, and with no entry
  nothing is formatted.
\<close>

fun format_loop :: "int \<Rightarrow> (int \<times> pystr) list \<Rightarrow> error + pystr list" where
  "format_loop pad [] = Inr []"
| "format_loop pad ((i, line) # rest) =
     (case format_0d pad i of
        Inl e \<Rightarrow> Inl e
      | Inr s \<Rightarrow>
          (case format_loop pad rest of
             Inl e \<Rightarrow> Inl e
           | Inr out \<Rightarrow> Inr ((s @ [58, 32] @ line) # out)))"

text \<open>
  \<open>format(pad=None)\<close>: without \<open>pad\<close> the width is \<open>max(2, len(str(max_idx)))\<close>, where
  \<open>max_idx\<close> is the largest index value, or 0 when there is none.
\<close>

definition format :: "NumberedLines \<Rightarrow> int option \<Rightarrow> error + pystr list" where
  "format self pad_opt =
     (case (case pad_opt of
              None \<Rightarrow>
                (let max_idx = (if index self \<noteq> [] then Max (set (index self)) else 0)
                 in case str_int max_idx of
                      Inl e \<Rightarrow> Inl e
                    | Inr s \<Rightarrow> Inr (max 2 (int (length s))))
            | Some p \<Rightarrow> Inr p) of
        Inl e \<Rightarrow> Inl e
      | Inr pad \<Rightarrow> format_loop pad (zip (index self) (lines self)))"

text \<open>\<open>reset_index\<close>: the constructor on \<open>self.lines\<close> and \<open>range(len(self.lines))\<close>.\<close>

definition reset_index :: "NumberedLines \<Rightarrow> error + NumberedLines" where
  "reset_index self =
     init (Iterable (map StrItem (lines self)))
       (Some (map int [0..<length (lines self)]))"

text \<open>
  The loop shared by \<open>filter\<close> and \<open>filter_out\<close>: walk \<open>zip(self.index, self.lines)\<close>
  and append the entries to keep to \<open>keep_lines\<close> and \<open>keep_index\<close>. \<open>want\<close> is the
  truth value of \<open>regex.search(line)\<close> that keeps a line: \<open>True\<close> for \<open>filter\<close>,
  \<open>False\<close> for \<open>filter_out\<close>. The compiled pattern is the predicate \<open>search\<close>.
\<close>

fun keep_loop ::
  "(pystr \<Rightarrow> bool) \<Rightarrow> bool \<Rightarrow> (int \<times> pystr) list \<Rightarrow> pystr list \<Rightarrow> int list
     \<Rightarrow> pystr list \<times> int list" where
  "keep_loop search want [] keep_lines keep_index = (keep_lines, keep_index)"
| "keep_loop search want ((i, line) # rest) keep_lines keep_index =
     (if search line = want
      then keep_loop search want rest (keep_lines @ [line]) (keep_index @ [i])
      else keep_loop search want rest keep_lines keep_index)"

definition filter_nl :: "NumberedLines \<Rightarrow> (pystr \<Rightarrow> bool) \<Rightarrow> error + NumberedLines" where
  "filter_nl self search =
     (case keep_loop search True (zip (index self) (lines self)) [] [] of
        (keep_lines, keep_index) \<Rightarrow>
          init (Iterable (map StrItem keep_lines)) (Some keep_index))"

definition filter_out :: "NumberedLines \<Rightarrow> (pystr \<Rightarrow> bool) \<Rightarrow> error + NumberedLines" where
  "filter_out self search =
     (case keep_loop search False (zip (index self) (lines self)) [] [] of
        (keep_lines, keep_index) \<Rightarrow>
          init (Iterable (map StrItem keep_lines)) (Some keep_index))"

text \<open>
  The objects the public constructor can build: \<open>lines\<close> and \<open>index\<close> of equal length,
  and no line boundary inside a line (\<open>instance_iff_constructed\<close> below shows that
  these are exactly the results of \<open>init\<close>).
\<close>

definition no_linebreak :: "pystr \<Rightarrow> bool" where
  "no_linebreak l \<longleftrightarrow> list_all (\<lambda>c. \<not> is_linebreak c) l"

definition is_instance :: "NumberedLines \<Rightarrow> bool" where
  "is_instance X \<longleftrightarrow>
     length (lines X) = length (index X) \<and> list_all no_linebreak (lines X)"

section \<open>Notions the properties are stated with\<close>

text \<open>
  The number of decimal digits of a natural number, and of an integer (of its absolute
  value, so that a sign is not a digit).
\<close>

fun num_digits :: "nat \<Rightarrow> nat" where
  "num_digits n = (if n < 10 then 1 else Suc (num_digits (n div 10)))"

declare num_digits.simps [simp del]

definition decimal_digits :: "int \<Rightarrow> nat" where
  "decimal_digits i = num_digits (nat \<bar>i\<bar>)"

text \<open>
  Reading a string of decimal digits back as a number; \<open>is_decimal ds n\<close> says that
  \<open>ds\<close> is a non-empty string of the characters \<open>"0"\<close> to \<open>"9"\<close> that reads as \<open>n\<close>
  (leading zeros allowed).
\<close>

definition digits_value :: "pystr \<Rightarrow> nat" where
  "digits_value ds = foldl (\<lambda>acc c. 10 * acc + (c - 48)) 0 ds"

definition is_decimal :: "pystr \<Rightarrow> nat \<Rightarrow> bool" where
  "is_decimal ds n \<longleftrightarrow>
     ds \<noteq> [] \<and> list_all (\<lambda>c. 48 \<le> c \<and> c \<le> 57) ds \<and> digits_value ds = n"

text \<open>
  \<open>r\<close> is the integer \<open>i\<close> rendered as a zero-padded decimal of width \<open>w\<close>: digits that
  read as \<open>\<bar>i\<bar>\<close>, after a minus sign when \<open>i\<close> is negative, \<open>w\<close> characters in all, or
  as many as the number needs when that is more. Only zeros can fill the width, since
  the digits read as \<open>\<bar>i\<bar>\<close> (\<open>zero_padded_decimal_unique\<close>: there is one such string).
\<close>

definition zero_padded_decimal :: "nat \<Rightarrow> int \<Rightarrow> pystr \<Rightarrow> bool" where
  "zero_padded_decimal w i r \<longleftrightarrow>
     (if i < 0
      then (case r of
              [] \<Rightarrow> False
            | c # ds \<Rightarrow> c = 45 \<and> is_decimal ds (nat (- i)))
           \<and> length r = max w (Suc (decimal_digits i))
      else is_decimal r (nat i) \<and> length r = max w (decimal_digits i))"

text \<open>
  Putting two selections of one list back together in the original order: \<open>flags\<close>
  says, for each original position, whether its entry went to the first selection
  (\<open>True\<close>) or to the second.
\<close>

fun merge_original :: "bool list \<Rightarrow> 'a list \<Rightarrow> 'a list \<Rightarrow> 'a list" where
  "merge_original [] ys zs = []"
| "merge_original (True # flags) (y # ys) zs = y # merge_original flags ys zs"
| "merge_original (False # flags) ys (z # zs) = z # merge_original flags ys zs"
| "merge_original (True # flags) [] zs = []"
| "merge_original (False # flags) ys [] = []"

section \<open>Objects and patterns used in the concrete runs\<close>

text \<open>
  \<open>abc\<close> is \<open>NumberedLines("a\nb\r\nc")\<close>; \<open>bc\<close>, \<open>only_b\<close>, \<open>ac\<close> and \<open>cba\<close> are what
  \<open>abc[1:]\<close>, \<open>abc.filter(b)\<close>, \<open>abc.filter_out(b)\<close> and \<open>abc[::-1]\<close> return, for the
  pattern \<open>b = re.compile("b")\<close>, whose \<open>search\<close> is \<open>has_b\<close>. \<open>a_blank_b\<close> is
  \<open>NumberedLines("a\n\nb")\<close> and \<open>blank\<close> is \<open>NumberedLines("\n")\<close>: both hold an empty
  line. \<open>is_empty\<close> is the \<open>search\<close> of \<open>re.compile("^$")\<close> on a line without line boundary.
  \<open>twice5\<close> is \<open>NumberedLines(["a", "b"], [5, 5])\<close>, \<open>wide\<close> is
  \<open>NumberedLines(["a", "b"], [7, 120])\<close>, \<open>negs\<close> is \<open>NumberedLines(["a", "b"], [-120, -5])\<close>
  and \<open>huge\<close> is \<open>NumberedLines(["a"], [10 ** 4300])\<close>.
\<close>

definition abc :: NumberedLines where
  "abc = \<lparr>lines = [[97], [98], [99]], index = [0, 1, 2]\<rparr>"

definition bc :: NumberedLines where
  "bc = \<lparr>lines = [[98], [99]], index = [1, 2]\<rparr>"

definition only_b :: NumberedLines where
  "only_b = \<lparr>lines = [[98]], index = [1]\<rparr>"

definition ac :: NumberedLines where
  "ac = \<lparr>lines = [[97], [99]], index = [0, 2]\<rparr>"

definition cba :: NumberedLines where
  "cba = \<lparr>lines = [[99], [98], [97]], index = [2, 1, 0]\<rparr>"

definition a_blank_b :: NumberedLines where
  "a_blank_b = \<lparr>lines = [[97], [], [98]], index = [0, 1, 2]\<rparr>"

definition blank :: NumberedLines where
  "blank = \<lparr>lines = [[]], index = [0]\<rparr>"

definition twice5 :: NumberedLines where
  "twice5 = \<lparr>lines = [[97], [98]], index = [5, 5]\<rparr>"

definition negs :: NumberedLines where
  "negs = \<lparr>lines = [[97], [98]], index = [- 120, - 5]\<rparr>"

definition wide :: NumberedLines where
  "wide = \<lparr>lines = [[97], [98]], index = [7, 120]\<rparr>"

definition huge :: NumberedLines where
  "huge = \<lparr>lines = [[97]], index = [10 ^ int_max_str_digits]\<rparr>"

definition has_b :: "pystr \<Rightarrow> bool" where
  "has_b line \<longleftrightarrow> 98 \<in> set line"

definition is_empty :: "pystr \<Rightarrow> bool" where
  "is_empty line \<longleftrightarrow> line = []"


section \<open>Line splitting\<close>

lemma splitlines_from_no_linebreak:
  "list_all (\<lambda>c. \<not> is_linebreak c) cur \<Longrightarrow> list_all no_linebreak (splitlines_from cur s)"
proof (induction cur s rule: splitlines_from.induct)
  case (1 cur)
  then show ?case by (simp add: no_linebreak_def)
next
  case (2 cur c cs)
  show ?case
  proof (cases "is_linebreak c")
    case False
    with 2 show ?thesis by simp
  next
    case True
    have cr: "is_linebreak 13" by (simp add: is_linebreak_def)
    from True 2 cr show ?thesis
      by (cases cs) (simp_all add: no_linebreak_def)
  qed
qed

lemma splitlines_no_linebreak: "list_all no_linebreak (splitlines s)"
  by (simp add: splitlines_def splitlines_from_no_linebreak)

lemma splitlines_from_plain:
  "list_all (\<lambda>c. \<not> is_linebreak c) s \<Longrightarrow>
   splitlines_from cur s = (if cur @ s = [] then [] else [cur @ s])"
  by (induction s arbitrary: cur) auto

lemma splitlines_plain:
  "no_linebreak l \<Longrightarrow> splitlines l = (if l = [] then [] else [l])"
  by (simp add: splitlines_def no_linebreak_def splitlines_from_plain)

lemma splitlines_from_terminated:
  "list_all (\<lambda>c. \<not> is_linebreak c) l \<Longrightarrow> splitlines_from cur (l @ [10]) = [cur @ l]"
  by (induction l arbitrary: cur) (auto simp: is_linebreak_def)

lemma splitlines_terminated: "no_linebreak l \<Longrightarrow> splitlines (l @ [10]) = [l]"
  by (simp add: splitlines_def no_linebreak_def splitlines_from_terminated)

lemma flatten_items_no_linebreak: "list_all no_linebreak (flatten_items items)"
  by (induction items rule: flatten_items.induct) (simp_all add: splitlines_no_linebreak)

lemma flatten_items_plain:
  "list_all no_linebreak ls \<Longrightarrow> flatten_items (map StrItem ls) = filter (\<lambda>l. l \<noteq> []) ls"
  by (induction ls) (simp_all add: splitlines_plain)

lemma flatten_items_terminated:
  "list_all no_linebreak ls \<Longrightarrow> flatten_items (map (\<lambda>l. StrItem (l @ [10])) ls) = ls"
  by (induction ls) (simp_all add: splitlines_terminated)

lemma init_is_instance: "init a ix = Inr X \<Longrightarrow> is_instance X"
  by (cases a; cases ix)
     (auto simp: init_def is_instance_def splitlines_no_linebreak flatten_items_no_linebreak
           split: if_splits)

lemma instance_constructed:
  assumes "is_instance X"
  shows "init (Iterable (map (\<lambda>l. StrItem (l @ [10])) (lines X))) (Some (index X)) = Inr X"
  using assms by (simp add: init_def is_instance_def flatten_items_terminated)

lemma instance_iff_constructed: "is_instance X \<longleftrightarrow> (\<exists>a ix. init a ix = Inr X)"
  using init_is_instance instance_constructed by blast

lemma filter_same_length: "length (filter P xs) = length xs \<Longrightarrow> filter P xs = xs"
proof (induction xs)
  case Nil
  then show ?case by simp
next
  case (Cons a xs)
  have "length (filter P xs) \<le> length xs" by (rule length_filter_le)
  with Cons show ?case by (cases "P a") auto
qed

lemma init_resplit:
  "list_all no_linebreak ls \<Longrightarrow>
   init (Iterable (map StrItem ls)) (Some ix) =
     (if length ix \<noteq> length (filter (\<lambda>l. l \<noteq> []) ls) then Inl ValueError
      else Inr \<lparr>lines = filter (\<lambda>l. l \<noteq> []) ls, index = ix\<rparr>)"
  by (simp add: init_def flatten_items_plain)

section \<open>Slicing a list\<close>

lemma div_mult_le_int: "0 < (b::int) \<Longrightarrow> a div b * b \<le> a"
  using div_mult_mod_eq [of a b] pos_mod_sign [of b a] by linarith

lemma pos_step_bound:
  fixes s e step :: int
  assumes "0 < step" "s < e" "int k < (e - s - 1) div step + 1"
  shows "s + int k * step < e"
proof -
  have "int k \<le> (e - s - 1) div step" using assms(3) by simp
  then have "int k * step \<le> (e - s - 1) div step * step"
    using assms(1) by (simp add: mult_right_mono)
  also have "\<dots> \<le> e - s - 1"
    using assms(1) by (rule div_mult_le_int)
  finally show ?thesis by simp
qed

lemma neg_step_bound:
  fixes s e step :: int
  assumes "step < 0" "e < s" "int k < (s - e - 1) div (- step) + 1"
  shows "e < s + int k * step"
proof -
  have "e + int k * (- step) < s"
    using pos_step_bound [of "- step" e s k] assms by simp
  then show ?thesis by simp
qed

lemma adjust_indices_pos:
  assumes "0 < step" "adjust_indices (int n) start stop step = (s, e)"
  shows "0 \<le> s" "e \<le> int n"
  using assms by (auto simp: adjust_indices_def Let_def split: option.splits if_splits)

lemma adjust_indices_neg:
  assumes "step < 0" "adjust_indices (int n) start stop step = (s, e)"
  shows "s < int n" "- 1 \<le> e"
  using assms by (auto simp: adjust_indices_def Let_def split: option.splits if_splits)

lemma slice_positions_in_range:
  assumes "slice_positions n sl = Inr ps"
  shows "list_all (\<lambda>p. p < n) ps"
proof (cases sl)
  case (Slice start stop step_opt)
  define step where "step = (case step_opt of None \<Rightarrow> 1 | Some k \<Rightarrow> k)"
  obtain s e where se: "adjust_indices (int n) start stop step = (s, e)"
    by (cases "adjust_indices (int n) start stop step")
  from assms Slice have nz: "step \<noteq> 0"
    by (auto simp: slice_positions_def step_def Let_def split: if_splits)
  from assms Slice se nz have ps: "ps = map (\<lambda>k. nat (s + int k * step)) [0..<slicelength s e step]"
    by (auto simp: slice_positions_def step_def Let_def split: if_splits)
  have "nat (s + int k * step) < n" if k: "k < slicelength s e step" for k
  proof (cases "0 < step")
    case True
    from k True have "s < e" and "int k < (e - s - 1) div step + 1"
      by (auto simp: slicelength_def split: if_splits)
    with True have "s + int k * step < e" by (simp add: pos_step_bound)
    moreover have "e \<le> int n" using adjust_indices_pos(2) [OF True se] .
    moreover have "0 \<le> s" using adjust_indices_pos(1) [OF True se] .
    moreover have "0 \<le> int k * step" using True by simp
    ultimately have "0 \<le> s + int k * step" and "s + int k * step < int n" by linarith+
    then show ?thesis by (simp add: nat_less_iff)
  next
    case False
    with nz have neg: "step < 0" by simp
    from k neg have "e < s" and "int k < (s - e - 1) div (- step) + 1"
      by (auto simp: slicelength_def split: if_splits)
    with neg have "e < s + int k * step" by (simp add: neg_step_bound)
    moreover have "- 1 \<le> e" using adjust_indices_neg(2) [OF neg se] .
    moreover have "s < int n" using adjust_indices_neg(1) [OF neg se] .
    moreover have "int k * step \<le> 0" using neg by (simp add: mult_nonneg_nonpos)
    ultimately have "0 \<le> s + int k * step" and "s + int k * step < int n" by linarith+
    then show ?thesis by (simp add: nat_less_iff)
  qed
  then show ?thesis by (simp add: ps list_all_iff)
qed

lemma slice_positions_increasing:
  assumes "slice_positions n (Slice start stop step_opt) = Inr ps"
    and "case step_opt of None \<Rightarrow> True | Some k \<Rightarrow> 0 < k"
  shows "sorted_wrt (<) ps"
proof -
  define step where "step = (case step_opt of None \<Rightarrow> 1 | Some k \<Rightarrow> k)"
  obtain s e where se: "adjust_indices (int n) start stop step = (s, e)"
    by (cases "adjust_indices (int n) start stop step")
  from assms(2) have pos: "0 < step" by (auto simp: step_def split: option.splits)
  from assms(1) se pos have ps: "ps = map (\<lambda>k. nat (s + int k * step)) [0..<slicelength s e step]"
    by (auto simp: slice_positions_def step_def Let_def split: if_splits)
  have s0: "0 \<le> s" using adjust_indices_pos(1) [OF pos se] .
  have "nat (s + int j * step) < nat (s + int k * step)" if "j < k" for j k
  proof -
    from that pos have "int j * step < int k * step" by simp
    moreover from pos have "0 \<le> int j * step" by simp
    ultimately have "0 \<le> s + int j * step" and "s + int j * step < s + int k * step"
      using s0 by linarith+
    then show ?thesis by (simp add: nat_less_eq_zless)
  qed
  then have "sorted_wrt (\<lambda>j k. nat (s + int j * step) < nat (s + int k * step)) [0..<slicelength s e step]"
    by (simp add: sorted_wrt_iff_nth_less)
  then show ?thesis by (simp add: ps sorted_wrt_map)
qed

lemma subseq_map_nth:
  "sorted_wrt (<) ps \<Longrightarrow> list_all (\<lambda>p. p < length xs) ps \<Longrightarrow> subseq (map (\<lambda>p. xs ! p) ps) xs"
proof (induction n \<equiv> "length ps" arbitrary: ps xs)
  case 0
  then show ?case by simp
next
  case (Suc n)
  from Suc.hyps(2) obtain p qs where ps: "ps = p # qs" by (cases ps) auto
  define ys where "ys = drop (Suc p) xs"
  define rs where "rs = map (\<lambda>q. q - Suc p) qs"
  from Suc.prems ps have p: "p < length xs" by simp
  have gt: "\<forall>q\<in>set qs. p < q" using Suc.prems(1) ps by simp
  have xs: "xs = take p xs @ xs ! p # ys"
    using p by (simp add: ys_def id_take_nth_drop)
  have len: "n = length rs" using Suc.hyps(2) ps by (simp add: rs_def)
  have "sorted_wrt (\<lambda>x y. x - Suc p < y - Suc p) qs"
  proof (rule sorted_wrt_mono_rel [where P = "(<)"])
    fix x y
    assume "x \<in> set qs" "y \<in> set qs" "x < y"
    with gt show "x - Suc p < y - Suc p" by (simp add: diff_less_mono Suc_leI)
  next
    show "sorted_wrt (<) qs" using Suc.prems(1) ps by simp
  qed
  then have sorted: "sorted_wrt (<) rs" by (simp add: rs_def sorted_wrt_map)
  have "q - Suc p < length ys" if "q \<in> set qs" for q
  proof -
    from that gt Suc.prems(2) ps have "p < q" and "q < length xs"
      by (auto simp: list_all_iff)
    then show ?thesis by (simp add: ys_def diff_less_mono Suc_leI)
  qed
  then have bound: "list_all (\<lambda>r. r < length ys) rs"
    by (simp add: rs_def list_all_iff)
  have "subseq (map (\<lambda>r. ys ! r) rs) ys"
    using len sorted bound by (rule Suc.hyps(1))
  moreover have "map (\<lambda>r. ys ! r) rs = map (\<lambda>q. xs ! q) qs"
    using gt p by (auto simp: rs_def ys_def)
  ultimately have "subseq (map (\<lambda>q. xs ! q) qs) ys" by simp
  then have "subseq (xs ! p # map (\<lambda>q. xs ! q) qs) (take p xs @ xs ! p # ys)"
    by (intro subseq_drop_many subseq_Cons2)
  with xs have "subseq (xs ! p # map (\<lambda>q. xs ! q) qs) xs" by simp
  then show ?case by (simp add: ps)
qed

lemma list_slice_set:
  assumes "list_slice xs sl = Inr ys"
  shows "set ys \<subseteq> set xs"
proof -
  from assms obtain ps where ps: "slice_positions (length xs) sl = Inr ps"
    and ys: "ys = map (\<lambda>p. xs ! p) ps"
    by (auto simp: list_slice_def split: sum.splits)
  from slice_positions_in_range [OF ps] show ?thesis
    by (auto simp: ys list_all_iff)
qed

lemma list_slice_subseq:
  assumes "list_slice xs (Slice start stop step_opt) = Inr ys"
    and "case step_opt of None \<Rightarrow> True | Some k \<Rightarrow> 0 < k"
  shows "subseq ys xs"
proof -
  from assms obtain ps where ps: "slice_positions (length xs) (Slice start stop step_opt) = Inr ps"
    and ys: "ys = map (\<lambda>p. xs ! p) ps"
    by (auto simp: list_slice_def split: sum.splits)
  show ?thesis unfolding ys
    using slice_positions_increasing [OF ps assms(2)] slice_positions_in_range [OF ps]
    by (rule subseq_map_nth)
qed

lemma list_slice_zip:
  assumes "length xs = length ys" "list_slice xs sl = Inr a" "list_slice ys sl = Inr b"
  shows "list_slice (zip xs ys) sl = Inr (zip a b)"
proof -
  from assms obtain ps where ps: "slice_positions (length xs) sl = Inr ps"
    and a: "a = map (\<lambda>p. xs ! p) ps" and b: "b = map (\<lambda>p. ys ! p) ps"
    by (auto simp: list_slice_def split: sum.splits)
  have "map (\<lambda>p. zip xs ys ! p) ps = zip a b"
    using slice_positions_in_range [OF ps] assms(1)
    by (simp add: a b zip_map_map list_all_iff zip_same_conv_map cong: map_cong)
  then show ?thesis using assms(1) ps by (simp add: list_slice_def)
qed

lemma list_slice_same_length:
  assumes "length xs = length ys" "list_slice xs sl = Inr a"
  shows "\<exists>b. list_slice ys sl = Inr b \<and> length b = length a"
  using assms by (auto simp: list_slice_def split: sum.splits)

lemma slice_positions_zero_step:
  "slice_positions n (Slice start stop step) = Inl e \<longleftrightarrow> step = Some 0 \<and> e = ValueError"
  by (auto simp: slice_positions_def Let_def split: option.splits prod.splits)

lemma slice_positions_decreasing:
  assumes "slice_positions n (Slice start stop (Some step)) = Inr ps" and "step < 0"
  shows "sorted_wrt (\<lambda>p q. q < p) ps"
proof -
  obtain s e where se: "adjust_indices (int n) start stop step = (s, e)"
    by (cases "adjust_indices (int n) start stop step")
  from assms se have ps: "ps = map (\<lambda>k. nat (s + int k * step)) [0..<slicelength s e step]"
    by (auto simp: slice_positions_def Let_def split: if_splits)
  have e: "- 1 \<le> e" using adjust_indices_neg(2) [OF assms(2) se] .
  have "nat (s + int k * step) < nat (s + int j * step)"
    if "j < k" "k < slicelength s e step" for j k
  proof -
    from that(2) assms(2) have "e < s" and "int k < (s - e - 1) div (- step) + 1"
      by (auto simp: slicelength_def split: if_splits)
    with assms(2) have "e < s + int k * step" by (simp add: neg_step_bound)
    with e have "0 \<le> s + int k * step" by linarith
    moreover from that(1) assms(2) have "int k * step < int j * step" by simp
    ultimately show ?thesis by (simp add: nat_less_eq_zless)
  qed
  then have "sorted_wrt (\<lambda>j k. nat (s + int k * step) < nat (s + int j * step))
               [0..<slicelength s e step]"
    by (simp add: sorted_wrt_iff_nth_less)
  then show ?thesis by (simp add: ps sorted_wrt_map)
qed

lemma list_slice_subseq_rev:
  assumes "list_slice xs (Slice start stop (Some step)) = Inr ys" and "step < 0"
  shows "subseq (rev ys) xs"
proof -
  from assms obtain ps where ps: "slice_positions (length xs) (Slice start stop (Some step)) = Inr ps"
    and ys: "ys = map (\<lambda>p. xs ! p) ps"
    by (auto simp: list_slice_def split: sum.splits)
  have "sorted_wrt (<) (rev ps)"
    using slice_positions_decreasing [OF ps assms(2)] by (simp add: sorted_wrt_rev)
  moreover have "list_all (\<lambda>p. p < length xs) (rev ps)"
    using slice_positions_in_range [OF ps] by (simp add: list_all_iff)
  ultimately have "subseq (map (\<lambda>p. xs ! p) (rev ps)) xs" by (rule subseq_map_nth)
  then show ?thesis by (simp add: ys rev_map)
qed

lemma list_slice_take_drop:
  assumes "0 \<le> a" "a \<le> b" "b \<le> int (length xs)"
  shows "list_slice xs (Slice (Some a) (Some b) None) = Inr (drop (nat a) (take (nat b) xs))"
proof -
  have adj: "adjust_indices (int (length xs)) (Some a) (Some b) 1 = (a, b)"
    using assms by (simp add: adjust_indices_def)
  have n: "slicelength a b 1 = nat b - nat a"
    using assms by (auto simp: slicelength_def)
  have "map (\<lambda>p. xs ! p) (map (\<lambda>k. nat (a + int k * 1)) [0..<nat b - nat a]) =
        drop (nat a) (take (nat b) xs)"
  proof (rule nth_equalityI)
    show "length (map (\<lambda>p. xs ! p) (map (\<lambda>k. nat (a + int k * 1)) [0..<nat b - nat a])) =
          length (drop (nat a) (take (nat b) xs))"
      using assms by simp
  next
    fix i
    assume "i < length (map (\<lambda>p. xs ! p) (map (\<lambda>k. nat (a + int k * 1)) [0..<nat b - nat a]))"
    then have i: "i < nat b - nat a" by simp
    then have "nat (a + int i) = nat a + i" using assms by (simp add: nat_add_distrib)
    with i show "map (\<lambda>p. xs ! p) (map (\<lambda>k. nat (a + int k * 1)) [0..<nat b - nat a]) ! i =
          drop (nat a) (take (nat b) xs) ! i"
      using assms by simp
  qed
  then show ?thesis
    by (simp add: list_slice_def slice_positions_def adj n)
qed

section \<open>Splitting a list in two and merging it back\<close>

lemma merge_original_filter:
  "merge_original (map Q ps) (map f (filter Q ps)) (map f (filter (\<lambda>p. \<not> Q p) ps)) = map f ps"
  by (induction ps) simp_all

lemma set_filter_split:
  "set (map f (filter Q ps)) \<union> set (map f (filter (\<lambda>p. \<not> Q p) ps)) = set (map f ps)"
  by auto

lemma distinct_filter_disjoint:
  "distinct (map f ps) \<Longrightarrow>
   set (map f (filter Q ps)) \<inter> set (map f (filter (\<lambda>p. \<not> Q p) ps)) = {}"
  by (induction ps) auto

lemma zip_fst_snd: "zip (map fst ps) (map snd ps) = ps"
  by (induction ps) auto

section \<open>Every transformation rebuilds through the constructor\<close>

text \<open>
  Slicing, \<open>filter\<close>, \<open>filter_out\<close> and \<open>reset_index\<close> hand lines that are already
  split to \<open>init\<close>, which splits each of them again. A line without a line boundary
  splits into itself, except the empty line, which splits into nothing: the rebuilt
  \<open>lines\<close> is then shorter than the index passed along and \<open>init\<close> raises.
\<close>

lemma rebuild_instance:
  assumes "list_all no_linebreak ls" "length ix = length ls"
  shows "init (Iterable (map StrItem ls)) (Some ix) =
           (if [] \<in> set ls then Inl ValueError else Inr \<lparr>lines = ls, index = ix\<rparr>)"
proof (cases "[] \<in> set ls")
  case True
  then have "length (filter (\<lambda>l. l \<noteq> []) ls) < length ls"
    by (simp add: length_filter_less)
  with assms True show ?thesis by (simp add: init_resplit)
next
  case False
  then have "filter (\<lambda>l. l \<noteq> []) ls = ls" by (auto simp: filter_id_conv)
  with assms False show ?thesis by (simp add: init_resplit)
qed

lemma keep_loop_eq:
  "keep_loop search want ps kl ki =
     (kl @ map snd (filter (\<lambda>p. search (snd p) = want) ps),
      ki @ map fst (filter (\<lambda>p. search (snd p) = want) ps))"
  by (induction search want ps kl ki rule: keep_loop.induct) simp_all

lemma keep_loop_lengths:
  "keep_loop search want ps kl ki = (kl', ki') \<Longrightarrow> length kl = length ki \<Longrightarrow> length kl' = length ki'"
  by (simp add: keep_loop_eq) auto

lemma getitem_slice_instance:
  assumes "is_instance X"
  shows "getitem X (SliceKey sl) =
           (case list_slice (lines X) sl of
              Inl e \<Rightarrow> Inl e
            | Inr ls \<Rightarrow>
                (case list_slice (index X) sl of
                   Inl e \<Rightarrow> Inl e
                 | Inr ix \<Rightarrow>
                     if [] \<in> set ls then Inl ValueError
                     else Inr (Sub \<lparr>lines = ls, index = ix\<rparr>)))"
proof (cases "list_slice (lines X) sl")
  case (Inl e)
  then show ?thesis by (simp add: getitem_def)
next
  case (Inr ls)
  from assms have len: "length (lines X) = length (index X)"
    and nb: "list_all no_linebreak (lines X)" by (simp_all add: is_instance_def)
  from list_slice_same_length [OF len Inr] obtain ix
    where ix: "list_slice (index X) sl = Inr ix" and lix: "length ix = length ls" by blast
  from list_slice_set [OF Inr] nb have "list_all no_linebreak ls"
    by (auto simp: list_all_iff)
  then show ?thesis
    using Inr ix lix by (simp add: getitem_def rebuild_instance)
qed

lemma kept_instance:
  assumes "is_instance X"
  shows "init (Iterable (map StrItem (map snd (filter Q (zip (index X) (lines X))))))
              (Some (map fst (filter Q (zip (index X) (lines X))))) =
           (if [] \<in> snd ` set (filter Q (zip (index X) (lines X))) then Inl ValueError
            else Inr \<lparr>lines = map snd (filter Q (zip (index X) (lines X))),
                      index = map fst (filter Q (zip (index X) (lines X)))\<rparr>)"
proof -
  from assms have nb: "list_all no_linebreak (lines X)" by (simp add: is_instance_def)
  have "set (map snd (filter Q (zip (index X) (lines X)))) \<subseteq> set (lines X)"
    by (auto dest: set_zip_rightD)
  with nb have "list_all no_linebreak (map snd (filter Q (zip (index X) (lines X))))"
    unfolding list_all_iff by blast
  then show ?thesis
    using rebuild_instance [of "map snd (filter Q (zip (index X) (lines X)))"
        "map fst (filter Q (zip (index X) (lines X)))"]
    by simp
qed

lemma filter_nl_instance:
  assumes "is_instance X"
  shows "filter_nl X search =
           (let kept = filter (\<lambda>(i, line). search line) (zip (index X) (lines X))
            in if [] \<in> snd ` set kept then Inl ValueError
               else Inr \<lparr>lines = map snd kept, index = map fst kept\<rparr>)"
  using kept_instance [OF assms, of "\<lambda>p. search (snd p) = True"]
  by (simp add: filter_nl_def keep_loop_eq Let_def case_prod_unfold)

lemma filter_out_instance:
  assumes "is_instance X"
  shows "filter_out X search =
           (let kept = filter (\<lambda>(i, line). \<not> search line) (zip (index X) (lines X))
            in if [] \<in> snd ` set kept then Inl ValueError
               else Inr \<lparr>lines = map snd kept, index = map fst kept\<rparr>)"
  using kept_instance [OF assms, of "\<lambda>p. search (snd p) = False"]
  by (simp add: filter_out_def keep_loop_eq Let_def case_prod_unfold)

lemma reset_index_instance:
  assumes "is_instance X"
  shows "reset_index X =
           (if [] \<in> set (lines X) then Inl ValueError
            else Inr \<lparr>lines = lines X, index = map int [0..<length (lines X)]\<rparr>)"
  using assms by (simp add: reset_index_def is_instance_def rebuild_instance)

lemma getitem_slice_from_init:
  "getitem X (SliceKey sl) = Inr (Sub Y) \<Longrightarrow> is_instance Y"
  by (auto simp: getitem_def split: sum.splits dest: init_is_instance)

lemma filter_nl_from_init: "filter_nl X search = Inr Y \<Longrightarrow> is_instance Y"
  by (auto simp: filter_nl_def split: prod.splits dest: init_is_instance)

lemma filter_out_from_init: "filter_out X search = Inr Y \<Longrightarrow> is_instance Y"
  by (auto simp: filter_out_def split: prod.splits dest: init_is_instance)

lemma reset_index_from_init: "reset_index X = Inr Y \<Longrightarrow> is_instance Y"
  by (auto simp: reset_index_def dest: init_is_instance)

lemma filter_nl_result:
  assumes "is_instance X" "filter_nl X search = Inr Y"
  shows "lines Y = map snd (filter (\<lambda>p. search (snd p)) (zip (index X) (lines X)))"
    and "index Y = map fst (filter (\<lambda>p. search (snd p)) (zip (index X) (lines X)))"
  using assms(2) unfolding filter_nl_instance [OF assms(1)]
  by (auto simp: Let_def case_prod_unfold split: if_splits)

lemma filter_out_result:
  assumes "is_instance X" "filter_out X search = Inr Z"
  shows "lines Z = map snd (filter (\<lambda>p. \<not> search (snd p)) (zip (index X) (lines X)))"
    and "index Z = map fst (filter (\<lambda>p. \<not> search (snd p)) (zip (index X) (lines X)))"
  using assms(2) unfolding filter_out_instance [OF assms(1)]
  by (auto simp: Let_def case_prod_unfold split: if_splits)

lemma getitem_slice_result:
  assumes "is_instance X" "getitem X (SliceKey sl) = Inr (Sub Y)"
  shows "list_slice (lines X) sl = Inr (lines Y)" and "list_slice (index X) sl = Inr (index Y)"
  using assms(2) unfolding getitem_slice_instance [OF assms(1)]
  by (auto split: sum.splits if_splits)

lemma reset_index_result:
  assumes "is_instance X" "reset_index X = Inr Y"
  shows "lines Y = lines X" and "index Y = map int [0..<length (lines X)]"
  using assms(2) unfolding reset_index_instance [OF assms(1)]
  by (auto split: if_splits)

lemma getitem_slice_without_empty_line:
  assumes "is_instance X" "[] \<notin> set (lines X)" "step \<noteq> Some 0"
  shows "\<exists>ls ix. list_slice (lines X) (Slice start stop step) = Inr ls \<and>
                 list_slice (index X) (Slice start stop step) = Inr ix \<and>
                 getitem X (SliceKey (Slice start stop step)) = Inr (Sub \<lparr>lines = ls, index = ix\<rparr>)"
proof -
  from assms(1) have len: "length (lines X) = length (index X)" by (simp add: is_instance_def)
  obtain ps where ps: "slice_positions (length (lines X)) (Slice start stop step) = Inr ps"
    using assms(3) slice_positions_zero_step [of "length (lines X)" start stop step]
    by (cases "slice_positions (length (lines X)) (Slice start stop step)") auto
  then obtain ls where ls: "list_slice (lines X) (Slice start stop step) = Inr ls"
    by (simp add: list_slice_def)
  from list_slice_same_length [OF len ls] obtain ix
    where ix: "list_slice (index X) (Slice start stop step) = Inr ix" by blast
  from list_slice_set [OF ls] assms(2) have "[] \<notin> set ls" by blast
  with ls ix show ?thesis
    by (simp add: getitem_slice_instance [OF assms(1)])
qed

lemma reset_index_without_empty_line:
  assumes "is_instance X" "[] \<notin> set (lines X)"
  shows "reset_index X = Inr \<lparr>lines = lines X, index = map int [0..<len X]\<rparr>"
  using assms by (simp add: reset_index_instance len_def)

lemma reset_index_idempotent:
  assumes "is_instance X" "reset_index X = Inr Y"
  shows "reset_index Y = Inr Y"
proof -
  have Y: "lines Y = lines X" "index Y = map int [0..<length (lines X)]"
    using reset_index_result [OF assms] by simp_all
  from assms(2) have "[] \<notin> set (lines X)"
    unfolding reset_index_instance [OF assms(1)] by (auto split: if_splits)
  moreover have "is_instance Y" using assms(2) by (rule reset_index_from_init)
  ultimately show ?thesis
    by (simp add: reset_index_instance Y)
qed

section \<open>Decimal rendering\<close>

lemma str_nat_nonempty: "str_nat n \<noteq> []"
  by (subst str_nat.simps) simp

lemma length_str_nat: "length (str_nat n) = num_digits n"
  by (induction n rule: str_nat.induct)
     (subst str_nat.simps, subst num_digits.simps, simp)

lemma num_digits_pos: "0 < num_digits n"
  by (subst num_digits.simps) simp

lemma num_digits_mono: "a \<le> b \<Longrightarrow> num_digits a \<le> num_digits b"
proof (induction b arbitrary: a rule: num_digits.induct)
  case (1 n)
  show ?case
  proof (cases "a < 10")
    case True
    then have "num_digits a = 1" by (simp add: num_digits.simps [of a])
    then show ?thesis using num_digits_pos [of n] by simp
  next
    case False
    with "1.prems" have n: "\<not> n < 10" by simp
    from "1.prems" have "a div 10 \<le> n div 10" by (rule div_le_mono)
    with n have "num_digits (a div 10) \<le> num_digits (n div 10)" by (rule "1.IH")
    with False n show ?thesis
      by (simp add: num_digits.simps [of a] num_digits.simps [of n])
  qed
qed

lemma digits_value_snoc: "digits_value (ds @ [c]) = 10 * digits_value ds + (c - 48)"
  by (simp add: digits_value_def)

lemma digits_value_zero_Cons: "digits_value (48 # ds) = digits_value ds"
  by (simp add: digits_value_def)

lemma digits_value_zeros: "digits_value (replicate z 48 @ ds) = digits_value ds"
  by (induction z) (simp_all add: digits_value_zero_Cons)

lemma digits_value_str_nat: "digits_value (str_nat n) = n"
proof (induction n rule: str_nat.induct)
  case (1 n)
  show ?case
  proof (cases "n < 10")
    case True
    then show ?thesis by (simp add: str_nat.simps [of n] digits_value_def)
  next
    case False
    with 1 have "digits_value (str_nat (n div 10)) = n div 10" by simp
    with False show ?thesis
      by (simp add: str_nat.simps [of n] digits_value_snoc)
  qed
qed

lemma str_nat_digits: "list_all (\<lambda>c. 48 \<le> c \<and> c \<le> 57) (str_nat n)"
proof (induction n rule: str_nat.induct)
  case (1 n)
  show ?case
  proof (cases "n < 10")
    case True
    then show ?thesis by (simp add: str_nat.simps [of n])
  next
    case False
    with 1 have "list_all (\<lambda>c. 48 \<le> c \<and> c \<le> 57) (str_nat (n div 10))" by simp
    moreover have "n mod 10 \<le> 9" by simp
    ultimately show ?thesis using False
      by (simp add: str_nat.simps [of n])
  qed
qed

lemma is_decimal_padded: "is_decimal (replicate z 48 @ str_nat n) n"
proof -
  have "list_all (\<lambda>c. 48 \<le> c \<and> c \<le> 57) (replicate z (48 :: nat))"
    by (simp add: list_all_iff)
  then show ?thesis
    by (simp add: is_decimal_def str_nat_nonempty digits_value_zeros digits_value_str_nat
        str_nat_digits)
qed

lemma format_0d_zero_padded:
  assumes "0 \<le> pad" "pad < 2 ^ 63" "\<bar>i\<bar> < 10 ^ int_max_str_digits"
  shows "\<exists>r. format_0d pad i = Inr r \<and> zero_padded_decimal (nat pad) i r"
proof (cases "i < 0")
  case True
  define d where "d = num_digits (nat (- i))"
  have abs: "nat \<bar>i\<bar> = nat (- i)" using True by simp
  have "Suc (nat pad - 1 - d + d) = max (nat pad) (Suc d)"
    by (simp add: max_def)
  with True assms show ?thesis
    by (simp add: format_0d_def zero_padded_decimal_def is_decimal_padded length_str_nat
        decimal_digits_def abs d_def)
next
  case False
  have "nat pad - num_digits (nat i) + num_digits (nat i) = max (nat pad) (num_digits (nat i))"
    by (simp add: max_def)
  with False assms show ?thesis
    by (simp add: format_0d_def zero_padded_decimal_def is_decimal_padded length_str_nat
        decimal_digits_def)
qed

lemma format_0d_error: "format_0d pad i = Inl e \<Longrightarrow> e = ValueError"
  by (auto simp: format_0d_def split: if_splits)

lemma format_loop_error: "format_loop pad ps = Inl e \<Longrightarrow> e = ValueError"
  by (induction pad ps rule: format_loop.induct)
     (auto split: sum.splits dest: format_0d_error)

lemma format_loop_returns:
  "format_loop pad ps = Inr out \<Longrightarrow> p \<in> set ps \<Longrightarrow> \<exists>r. format_0d pad (fst p) = Inr r"
  by (induction pad ps arbitrary: out rule: format_loop.induct)
     (auto split: sum.splits)

lemma format_loop_entries:
  assumes "\<And>p. p \<in> set ps \<Longrightarrow> \<exists>r. format_0d pad (fst p) = Inr r \<and> P (fst p) r"
  shows "\<exists>out. format_loop pad ps = Inr out \<and> length out = length ps \<and>
           (\<forall>k<length ps. \<exists>r. out ! k = r @ [58, 32] @ snd (ps ! k) \<and> P (fst (ps ! k)) r)"
  using assms
proof (induction ps)
  case Nil
  then show ?case by simp
next
  case (Cons p ps)
  obtain i line where p: "p = (i, line)" by (cases p)
  from Cons.prems [of p] p obtain r where r: "format_0d pad i = Inr r" "P i r" by auto
  from Cons.IH Cons.prems obtain out where out: "format_loop pad ps = Inr out"
    "length out = length ps"
    "\<forall>k<length ps. \<exists>r. out ! k = r @ [58, 32] @ snd (ps ! k) \<and> P (fst (ps ! k)) r"
    by auto
  have "\<exists>r'. ((r @ [58, 32] @ line) # out) ! k = r' @ [58, 32] @ snd ((p # ps) ! k) \<and>
             P (fst ((p # ps) ! k)) r'" if "k < length (p # ps)" for k
  proof (cases k)
    case 0
    with r p show ?thesis by auto
  next
    case (Suc j)
    with that out(3) show ?thesis by simp
  qed
  with r out p show ?case by simp
qed

lemma last_digit_eq:
  fixes a b x y :: nat
  assumes "a < 10" "b < 10" "10 * x + a = 10 * y + b"
  shows "x = y \<and> a = b"
proof -
  from assms(3) have "(10 * x + a) mod 10 = (10 * y + b) mod 10" by simp
  with assms(1,2) have "a = b" by simp
  with assms(3) show ?thesis by simp
qed

lemma digits_same_value:
  assumes "length r = length r'"
    and "list_all (\<lambda>c. 48 \<le> c \<and> c \<le> 57) r" "list_all (\<lambda>c. 48 \<le> c \<and> c \<le> (57::nat)) r'"
    and "digits_value r = digits_value r'"
  shows "r = r'"
  using assms
proof (induction r arbitrary: r' rule: rev_induct)
  case Nil
  then show ?case by simp
next
  case (snoc c ds)
  from snoc.prems(1) obtain c' ds' where r': "r' = ds' @ [c']"
    by (cases r' rule: rev_cases) auto
  from snoc.prems r' have c: "48 \<le> c" "c \<le> 57" "48 \<le> c'" "c' \<le> 57"
    and eq: "10 * digits_value ds + (c - 48) = 10 * digits_value ds' + (c' - 48)"
    by (simp_all add: digits_value_snoc)
  from c have "c - 48 < 10" "c' - 48 < 10" by simp_all
  from last_digit_eq [OF this eq] c
  have "c = c'" and "digits_value ds = digits_value ds'" by auto
  moreover from snoc.prems r' have "length ds = length ds'"
    "list_all (\<lambda>c. 48 \<le> c \<and> c \<le> 57) ds" "list_all (\<lambda>c. 48 \<le> c \<and> c \<le> 57) ds'"
    by simp_all
  ultimately show ?case using snoc.IH [of ds'] r' by simp
qed

lemma zero_padded_decimal_unique:
  assumes "zero_padded_decimal w i r" "zero_padded_decimal w i r'"
  shows "r = r'"
proof (cases "i < 0")
  case False
  with assms show ?thesis
    by (auto simp: zero_padded_decimal_def is_decimal_def intro: digits_same_value)
next
  case True
  with assms obtain ds ds' where "r = 45 # ds" "r' = 45 # ds'"
    "is_decimal ds (nat (- i))" "is_decimal ds' (nat (- i))" "length r = length r'"
    by (auto simp: zero_padded_decimal_def split: list.splits)
  then show ?thesis
    by (auto simp: is_decimal_def intro: digits_same_value)
qed

lemma num_digits_bound: "0 < k \<Longrightarrow> n < 10 ^ k \<Longrightarrow> num_digits n \<le> k"
proof (induction k arbitrary: n)
  case 0
  then show ?case by simp
next
  case (Suc k)
  show ?case
  proof (cases "n < 10")
    case True
    then show ?thesis by (simp add: num_digits.simps [of n])
  next
    case False
    from Suc.prems(2) have div: "n div 10 < 10 ^ k"
      by (simp add: less_mult_imp_div_less mult.commute)
    with False have "0 < k" by (cases k) auto
    from this div have "num_digits (n div 10) \<le> k" by (rule Suc.IH)
    with False show ?thesis by (simp add: num_digits.simps [of n])
  qed
qed

lemma format_0d_Inr: "format_0d pad i = Inr r \<Longrightarrow> zero_padded_decimal (nat pad) i r"
proof -
  assume r: "format_0d pad i = Inr r"
  then have "0 \<le> pad" "pad < 2 ^ 63" "\<bar>i\<bar> < 10 ^ int_max_str_digits"
    by (auto simp: format_0d_def split: if_splits)
  from format_0d_zero_padded [OF this] r show ?thesis by simp
qed

lemma format_loop_Inr:
  assumes "format_loop pad ps = Inr out"
  shows "length out = length ps \<and>
         (\<forall>k<length ps. \<exists>r. out ! k = r @ [58, 32] @ snd (ps ! k) \<and>
            zero_padded_decimal (nat pad) (fst (ps ! k)) r)"
proof -
  have "\<exists>r. format_0d pad (fst p) = Inr r \<and> zero_padded_decimal (nat pad) (fst p) r"
    if "p \<in> set ps" for p
    using format_loop_returns [OF assms that] format_0d_Inr by blast
  from format_loop_entries [of ps pad "zero_padded_decimal (nat pad)", OF this] assms
  show ?thesis by simp
qed

lemma default_width:
  assumes "str_int m = Inr s" "i \<le> m"
    and "zero_padded_decimal (nat (max 2 (int (length s)))) i r"
  shows "zero_padded_decimal (max 2 (decimal_digits m)) i r"
proof (cases "m < 0")
  case False
  with assms(1) have "length s = decimal_digits m"
    by (auto simp: str_int_def decimal_digits_def length_str_nat split: if_splits)
  then have "nat (max 2 (int (length s))) = max 2 (decimal_digits m)"
    by (simp add: max_def)
  with assms(3) show ?thesis by simp
next
  case True
  with assms(2) have i: "i < 0" by simp
  from True assms(1) have len: "length s = Suc (decimal_digits m)"
    by (auto simp: str_int_def decimal_digits_def length_str_nat split: if_splits)
  from assms(2) True have "nat \<bar>m\<bar> \<le> nat \<bar>i\<bar>" by simp
  then have le: "decimal_digits m \<le> decimal_digits i"
    unfolding decimal_digits_def by (rule num_digits_mono)
  have pos: "0 < decimal_digits m" by (simp add: decimal_digits_def num_digits_pos)
  have "nat (max 2 (int (length s))) = max 2 (Suc (decimal_digits m))"
  proof -
    have "nat (1 + int n) = Suc n" for n by simp
    then show ?thesis by (simp add: len max_def)
  qed
  moreover have "max (max 2 (Suc (decimal_digits m))) (Suc (decimal_digits i)) =
      max (max 2 (decimal_digits m)) (Suc (decimal_digits i))"
    using le pos by (simp add: max_def)
  ultimately show ?thesis
    using assms(3) i by (simp add: zero_padded_decimal_def)
qed

lemma str_int_returns:
  "\<bar>m\<bar> < 10 ^ int_max_str_digits \<Longrightarrow>
   \<exists>s. str_int m = Inr s \<and> 0 < length s \<and> length s \<le> Suc int_max_str_digits"
proof -
  assume b: "\<bar>m\<bar> < 10 ^ int_max_str_digits"
  then have "nat \<bar>m\<bar> < 10 ^ int_max_str_digits"
    by (simp add: nat_less_iff)
  moreover have "0 < int_max_str_digits" by (simp add: int_max_str_digits_def)
  ultimately have "num_digits (nat \<bar>m\<bar>) \<le> int_max_str_digits"
    using num_digits_bound by blast
  moreover have "nat \<bar>m\<bar> = (if m < 0 then nat (- m) else nat m)" by simp
  ultimately show ?thesis using b
    by (auto simp: str_int_def length_str_nat str_nat_nonempty)
qed

lemma Max_index_bounded:
  assumes "list_all (\<lambda>i. \<bar>i\<bar> < 10 ^ int_max_str_digits) ix"
  shows "\<bar>if ix \<noteq> [] then Max (set ix) else 0\<bar> < (10 :: int) ^ int_max_str_digits"
proof (cases "ix = []")
  case True
  then show ?thesis by simp
next
  case False
  then have "Max (set ix) \<in> set ix" by (simp add: Max_in)
  with assms False show ?thesis by (simp add: list_all_iff)
qed

lemma format_default_lines:
  assumes inst: "is_instance X"
    and small: "list_all (\<lambda>i. \<bar>i\<bar> < 10 ^ int_max_str_digits) (index X)"
  shows "\<exists>out. format X None = Inr out \<and> length out = len X \<and>
           (\<forall>k<len X. \<exists>r.
              out ! k = r @ [58, 32] @ lines X ! k \<and>
              zero_padded_decimal
                (max 2 (decimal_digits (if index X = [] then 0 else Max (set (index X)))))
                (index X ! k) r)"
proof -
  from inst have len: "length (index X) = length (lines X)" by (simp add: is_instance_def)
  define ps where "ps = zip (index X) (lines X)"
  have lps: "length ps = len X" by (simp add: ps_def len len_def)
  have nth_ps: "fst (ps ! k) = index X ! k" "snd (ps ! k) = lines X ! k" if "k < len X" for k
    using that len by (simp_all add: ps_def len_def)
  have fst_ps: "fst ` set ps = set (index X)"
    using len by (simp add: ps_def flip: set_map)
  define m where "m = (if index X \<noteq> [] then Max (set (index X)) else 0)"
  from Max_index_bounded [OF small] have "\<bar>m\<bar> < 10 ^ int_max_str_digits" by (simp add: m_def)
  from str_int_returns [OF this] obtain s where s: "str_int m = Inr s"
    and sl: "length s \<le> Suc int_max_str_digits" by blast
  define c where "c = max 2 (int (length s))"
  have c: "0 \<le> c" "c < 2 ^ 63"
    using sl by (simp_all add: c_def int_max_str_digits_def)
  have "\<exists>r. format_0d c (fst p) = Inr r \<and>
             zero_padded_decimal (max 2 (decimal_digits m)) (fst p) r" if "p \<in> set ps" for p
  proof -
    from that fst_ps have i: "fst p \<in> set (index X)" by auto
    with small have "\<bar>fst p\<bar> < 10 ^ int_max_str_digits" by (simp add: list_all_iff)
    from format_0d_zero_padded [OF c this] obtain r where r: "format_0d c (fst p) = Inr r"
      "zero_padded_decimal (nat c) (fst p) r" by blast
    from i have "fst p \<le> m" by (auto simp: m_def)
    from s this r(2) have "zero_padded_decimal (max 2 (decimal_digits m)) (fst p) r"
      unfolding c_def by (rule default_width)
    with r(1) show ?thesis by blast
  qed
  from format_loop_entries [of ps c "zero_padded_decimal (max 2 (decimal_digits m))", OF this]
  obtain out where out: "format_loop c ps = Inr out" "length out = length ps"
    "\<forall>k<length ps. \<exists>r. out ! k = r @ [58, 32] @ snd (ps ! k) \<and>
       zero_padded_decimal (max 2 (decimal_digits m)) (fst (ps ! k)) r"
    by blast
  have "format X None = Inr out"
    using s out(1) by (simp add: format_def m_def c_def ps_def Let_def)
  moreover have "(if index X = [] then 0 else Max (set (index X))) = m"
    by (simp add: m_def)
  ultimately show ?thesis
    using out(2,3) lps nth_ps by (intro exI [of _ out]) (simp add: m_def)
qed

lemma format_pad_lines:
  assumes inst: "is_instance X" and "format X (Some p) = Inr out'"
  shows "length out' = len X"
    and "\<forall>k<len X. \<exists>r. out' ! k = r @ [58, 32] @ lines X ! k \<and>
           zero_padded_decimal (nat p) (index X ! k) r"
proof -
  from inst have len: "length (index X) = length (lines X)" by (simp add: is_instance_def)
  define ps where "ps = zip (index X) (lines X)"
  have lps: "length ps = len X" by (simp add: ps_def len len_def)
  have nth_ps: "fst (ps ! k) = index X ! k" "snd (ps ! k) = lines X ! k" if "k < len X" for k
    using that len by (simp_all add: ps_def len_def)
  have fst_ps: "fst ` set ps = set (index X)"
    using len by (simp add: ps_def flip: set_map)
  from assms(2) have "format_loop p ps = Inr out'" by (simp add: format_def ps_def)
  from format_loop_Inr [OF this] lps nth_ps
  show "length out' = len X"
    and "\<forall>k<len X. \<exists>r. out' ! k = r @ [58, 32] @ lines X ! k \<and>
           zero_padded_decimal (nat p) (index X ! k) r"
    by simp_all
qed

lemma format_long_index_raises:
  assumes inst: "is_instance X"
    and "\<not> list_all (\<lambda>i. \<bar>i\<bar> < 10 ^ int_max_str_digits) (index X)"
  shows "format X pad_opt = Inl ValueError"
proof -
  from inst have len: "length (index X) = length (lines X)" by (simp add: is_instance_def)
  define ps where "ps = zip (index X) (lines X)"
  have lps: "length ps = len X" by (simp add: ps_def len len_def)
  have nth_ps: "fst (ps ! k) = index X ! k" "snd (ps ! k) = lines X ! k" if "k < len X" for k
    using that len by (simp_all add: ps_def len_def)
  have fst_ps: "fst ` set ps = set (index X)"
    using len by (simp add: ps_def flip: set_map)
  define m where "m = (if index X \<noteq> [] then Max (set (index X)) else 0)"
  from assms(2) obtain i where "i \<in> set (index X)" "\<not> \<bar>i\<bar> < 10 ^ int_max_str_digits"
    by (auto simp: list_all_iff)
  with fst_ps obtain q where q: "q \<in> set ps" "\<not> \<bar>fst q\<bar> < 10 ^ int_max_str_digits"
    by (metis imageE)
  have loop: "format_loop c ps = Inl ValueError" for c
  proof (cases "format_loop c ps")
    case (Inl e)
    then show ?thesis using format_loop_error by blast
  next
    case (Inr out)
    from format_loop_returns [OF Inr q(1)] q(2) show ?thesis
      by (auto simp: format_0d_def split: if_splits)
  qed
  show ?thesis
  proof (cases pad_opt)
    case None
    show ?thesis
    proof (cases "str_int m")
      case (Inl e)
      then have "e = ValueError" by (auto simp: str_int_def split: if_splits)
      with Inl None show ?thesis by (simp add: format_def m_def Let_def)
    next
      case (Inr s)
      with None loop show ?thesis by (simp add: format_def m_def Let_def ps_def)
    qed
  next
    case (Some p)
    with loop show ?thesis by (simp add: format_def ps_def)
  qed
qed

section \<open>Concrete runs\<close>

lemmas run_defs =
  abc_def bc_def only_b_def ac_def cba_def a_blank_b_def blank_def twice5_def negs_def
  wide_def huge_def
  has_b_def is_empty_def
  getitem_def list_slice_def slice_positions_def adjust_indices_def slicelength_def
  reset_index_def filter_nl_def filter_out_def init_def splitlines_def is_linebreak_def

lemma abc_init: "init (Str [97, 10, 98, 13, 10, 99]) None = Inr abc"
  by (simp add: run_defs upt_rec)

lemma abc_instance: "is_instance abc"
  using abc_init by (rule init_is_instance)

lemma abc_slice: "getitem abc (SliceKey (Slice (Some 1) None None)) = Inr (Sub bc)"
  by (simp add: run_defs upt_rec)

lemma abc_reverse: "getitem abc (SliceKey (Slice None None (Some (- 1)))) = Inr (Sub cba)"
  by (simp add: run_defs upt_rec)

lemma abc_filter: "filter_nl abc has_b = Inr only_b"
  by (simp add: run_defs)

lemma abc_filter_out: "filter_out abc has_b = Inr ac"
  by (simp add: run_defs)

lemma abc_reset: "reset_index abc = Inr abc"
  by (simp add: run_defs upt_rec)

lemma a_blank_b_init: "init (Str [97, 10, 10, 98]) None = Inr a_blank_b"
  by (simp add: run_defs upt_rec)

lemma blank_init: "init (Str [10]) None = Inr blank"
  by (simp add: run_defs)

lemma twice5_init: "init (Iterable [StrItem [97], StrItem [98]]) (Some [5, 5]) = Inr twice5"
  by (simp add: run_defs)

lemma negs_init: "init (Iterable [StrItem [97], StrItem [98]]) (Some [- 120, - 5]) = Inr negs"
  by (simp add: run_defs)

section \<open>Properties of the constructor\<close>

text \<open>
  An input that is neither a string nor an iterable raises \<open>TypeError\<close>, whatever the
  index.
\<close>

lemma init_not_iterable: "init NotIterable index_in = Inl TypeError"
  by (simp add: init_def)

text \<open>
  C8. Construction with an explicit index, from a string or from a collection: when the
  length of the index differs from the number of lines that splitting (and flattening)
  produces, \<open>init\<close> fails with \<open>ValueError\<close>; when the lengths agree, it succeeds and
  stores exactly those lines and that index.
\<close>

theorem init_explicit_index:
  "init (Str s) (Some ix) =
     (if length ix \<noteq> length (splitlines s) then Inl ValueError
      else Inr \<lparr>lines = splitlines s, index = ix\<rparr>) \<and>
   init (Iterable items) (Some ix) =
     (if length ix \<noteq> length (flatten_items items) then Inl ValueError
      else Inr \<lparr>lines = flatten_items items, index = ix\<rparr>)"
  by (simp add: init_def)

text \<open>The two sides of C8 on \<open>"a\nb"\<close> with a short index and on a collection of three lines.\<close>

theorem init_explicit_index_witness:
  "init (Str [97, 10, 98]) (Some [5]) = Inl ValueError \<and>
   init (Iterable [StrItem [97, 10, 98], NonStr, StrItem [99]]) (Some [4, 5, 9]) =
     Inr \<lparr>lines = [[97], [98], [99]], index = [4, 5, 9]\<rparr>"
proof -
  have s: "splitlines [97, 10, 98] = [[97], [98]]"
    by (simp add: splitlines_def is_linebreak_def)
  have f: "flatten_items [StrItem [97, 10, 98], NonStr, StrItem [99]] = [[97], [98], [99]]"
    by (simp add: splitlines_def is_linebreak_def)
  have "init (Str [97, 10, 98]) (Some [5]) = Inl ValueError"
    using init_explicit_index [of "[97, 10, 98]" "[5]" "[]"] unfolding s by simp
  moreover have "init (Iterable [StrItem [97, 10, 98], NonStr, StrItem [99]]) (Some [4, 5, 9]) =
      Inr \<lparr>lines = [[97], [98], [99]], index = [4, 5, 9]\<rparr>"
    using init_explicit_index [of "[]" "[4, 5, 9]" "[StrItem [97, 10, 98], NonStr, StrItem [99]]"]
    unfolding f by simp
  ultimately show ?thesis by simp
qed

text \<open>
  C6. Whatever \<open>init\<close> returns has \<open>lines\<close> and \<open>index\<close> of equal length, and so has
  whatever a slice, \<open>filter\<close>, \<open>filter_out\<close> or \<open>reset_index\<close> returns.
\<close>

theorem length_invariant:
  "(init a ix = Inr X \<longrightarrow> length (lines X) = length (index X)) \<and>
   (getitem S (SliceKey sl) = Inr (Sub Y1) \<longrightarrow> length (lines Y1) = length (index Y1)) \<and>
   (filter_nl S search = Inr Y2 \<longrightarrow> length (lines Y2) = length (index Y2)) \<and>
   (filter_out S search = Inr Y3 \<longrightarrow> length (lines Y3) = length (index Y3)) \<and>
   (reset_index S = Inr Y4 \<longrightarrow> length (lines Y4) = length (index Y4))"
  using init_is_instance [of a ix X] getitem_slice_from_init [of S sl Y1]
    filter_nl_from_init [of S search Y2] filter_out_from_init [of S search Y3]
    reset_index_from_init [of S Y4]
  by (simp add: is_instance_def)

text \<open>C6 on \<open>"a\nb\r\nc"\<close>, its slice \<open>[1:]\<close>, its two filters and its reset.\<close>

theorem length_invariant_witness:
  "init (Str [97, 10, 98, 13, 10, 99]) None = Inr abc \<and>
   length (lines abc) = length (index abc) \<and>
   getitem abc (SliceKey (Slice (Some 1) None None)) = Inr (Sub bc) \<and>
   length (lines bc) = length (index bc) \<and>
   filter_nl abc has_b = Inr only_b \<and>
   length (lines only_b) = length (index only_b) \<and>
   filter_out abc has_b = Inr ac \<and>
   length (lines ac) = length (index ac) \<and>
   reset_index abc = Inr abc"
  using length_invariant [where a = "Str [97, 10, 98, 13, 10, 99]" and ix = None and X = abc
      and S = abc and sl = "Slice (Some 1) None None" and ?Y1.0 = bc and search = has_b
      and ?Y2.0 = only_b and ?Y3.0 = ac and ?Y4.0 = abc]
    abc_init abc_slice abc_filter abc_filter_out abc_reset
  by simp

text \<open>
  C10. No line of an object that \<open>init\<close> returns contains a line boundary, since every
  input string goes through \<open>splitlines\<close>; the same holds for whatever a slice,
  \<open>filter\<close>, \<open>filter_out\<close> or \<open>reset_index\<close> returns, as they all end in \<open>init\<close>.
\<close>

theorem lines_terminator_free:
  "(init a ix = Inr X \<longrightarrow> list_all no_linebreak (lines X)) \<and>
   (getitem S (SliceKey sl) = Inr (Sub Y1) \<longrightarrow> list_all no_linebreak (lines Y1)) \<and>
   (filter_nl S search = Inr Y2 \<longrightarrow> list_all no_linebreak (lines Y2)) \<and>
   (filter_out S search = Inr Y3 \<longrightarrow> list_all no_linebreak (lines Y3)) \<and>
   (reset_index S = Inr Y4 \<longrightarrow> list_all no_linebreak (lines Y4))"
  using init_is_instance [of a ix X] getitem_slice_from_init [of S sl Y1]
    filter_nl_from_init [of S search Y2] filter_out_from_init [of S search Y3]
    reset_index_from_init [of S Y4]
  by (simp add: is_instance_def)

text \<open>C10 on \<open>"a\nb\r\nc"\<close>, its slice \<open>[1:]\<close>, its two filters and its reset.\<close>

theorem lines_terminator_free_witness:
  "init (Str [97, 10, 98, 13, 10, 99]) None = Inr abc \<and>
   list_all no_linebreak (lines abc) \<and>
   getitem abc (SliceKey (Slice (Some 1) None None)) = Inr (Sub bc) \<and>
   list_all no_linebreak (lines bc) \<and>
   filter_nl abc has_b = Inr only_b \<and>
   list_all no_linebreak (lines only_b) \<and>
   filter_out abc has_b = Inr ac \<and>
   list_all no_linebreak (lines ac) \<and>
   reset_index abc = Inr abc"
  using lines_terminator_free [where a = "Str [97, 10, 98, 13, 10, 99]" and ix = None
      and X = abc and S = abc and sl = "Slice (Some 1) None None" and ?Y1.0 = bc
      and search = has_b and ?Y2.0 = only_b and ?Y3.0 = ac and ?Y4.0 = abc]
    abc_init abc_slice abc_filter abc_filter_out abc_reset
  by simp

section \<open>Reading one line\<close>

text \<open>
  C5, as the code has it. \<open>X[i]\<close> is \<open>self.lines[i]\<close>, a list read: it returns the line
  at position \<open>i\<close> for \<open>0 \<le> i < len(X)\<close>, the line at position \<open>len(X) + i\<close> for
  \<open>-len(X) \<le> i < 0\<close>, and raises \<open>IndexError\<close> for every other integer.
\<close>

theorem getitem_int:
  "getitem X (IntKey i) =
     (if 0 \<le> i \<and> i < int (len X) then Inr (Line (lines X ! nat i))
      else if - int (len X) \<le> i \<and> i < 0 then Inr (Line (lines X ! nat (i + int (len X))))
      else Inl IndexError)"
  by (simp add: getitem_def list_getitem_def len_def Let_def)

text \<open>The four cases on \<open>abc\<close>: \<open>abc[1]\<close>, \<open>abc[-3]\<close>, \<open>abc[3]\<close> and \<open>abc[-4]\<close>.\<close>

theorem getitem_int_witness:
  "getitem abc (IntKey 1) = Inr (Line [98]) \<and>
   getitem abc (IntKey (- 3)) = Inr (Line [97]) \<and>
   getitem abc (IntKey 3) = Inl IndexError \<and>
   getitem abc (IntKey (- 4)) = Inl IndexError"
  using getitem_int [of abc 1] getitem_int [of abc "- 3"]
    getitem_int [of abc 3] getitem_int [of abc "- 4"]
  by (simp add: len_def abc_def)

text \<open>
  C5 as stated fails: \<open>-1\<close> lies outside \<open>[0, len(X))\<close>, yet \<open>X[-1]\<close> returns the last
  line instead of raising.
\<close>

theorem getitem_negative_counterexample:
  "init (Str [97, 10, 98, 13, 10, 99]) None = Inr abc \<and>
   \<not> (0 \<le> (- 1 :: int) \<and> (- 1 :: int) < int (len abc)) \<and>
   getitem abc (IntKey (- 1)) = Inr (Line [99]) \<and>
   getitem abc (IntKey (- 1)) \<noteq> Inl IndexError"
  using abc_init by (simp add: getitem_def list_getitem_def len_def abc_def)

section \<open>Slicing\<close>

text \<open>
  C1 fails on the code. Take \<open>X = NumberedLines("a\n\nb")\<close>, whose second line is
  empty. \<open>X.lines[0:3]\<close> and \<open>X.index[0:3]\<close> are the whole lists, but \<open>X[0:3]\<close> raises
  \<open>ValueError\<close>: the constructor splits the three lines again, the empty one yields
  nothing, and two lines do not match three index values. (On an object without an
  empty line the slice returns the two parallel slices, see
  \<open>getitem_slice_without_empty_line\<close>.)
\<close>

theorem slice_empty_line_raises:
  "init (Str [97, 10, 10, 98]) None = Inr a_blank_b \<and>
   list_slice (lines a_blank_b) (Slice (Some 0) (Some 3) None) = Inr (lines a_blank_b) \<and>
   list_slice (index a_blank_b) (Slice (Some 0) (Some 3) None) = Inr (index a_blank_b) \<and>
   getitem a_blank_b (SliceKey (Slice (Some 0) (Some 3) None)) = Inl ValueError"
  by (simp add: run_defs upt_rec)

text \<open>
  C7, as the code has it. For an object \<open>X\<close> the constructor can build: the
  \<open>(index, line)\<close> pairs of a slice with a positive or omitted step, of \<open>filter\<close> and of
  \<open>filter_out\<close> are a subsequence of those of \<open>X\<close>; \<open>reset_index\<close> keeps the lines and
  numbers them from 0; a slice with a negative step returns a subsequence in reverse
  order.
\<close>

theorem order_preserved:
  "is_instance X \<longrightarrow>
     (getitem X (SliceKey (Slice start stop step)) = Inr (Sub Y1) \<and>
        (case step of None \<Rightarrow> True | Some k \<Rightarrow> 0 < k) \<longrightarrow>
        subseq (zip (index Y1) (lines Y1)) (zip (index X) (lines X))) \<and>
     (filter_nl X search = Inr Y2 \<longrightarrow>
        subseq (zip (index Y2) (lines Y2)) (zip (index X) (lines X))) \<and>
     (filter_out X search = Inr Y3 \<longrightarrow>
        subseq (zip (index Y3) (lines Y3)) (zip (index X) (lines X))) \<and>
     (reset_index X = Inr Y4 \<longrightarrow>
        lines Y4 = lines X \<and> index Y4 = map int [0..<len X]) \<and>
     (getitem X (SliceKey (Slice start' stop' (Some k))) = Inr (Sub Y5) \<and> k < 0 \<longrightarrow>
        subseq (rev (zip (index Y5) (lines Y5))) (zip (index X) (lines X)))"
proof (intro impI conjI)
  assume inst: "is_instance X"
  then have len: "length (index X) = length (lines X)" by (simp add: is_instance_def)
  {
    assume "getitem X (SliceKey (Slice start stop step)) = Inr (Sub Y1) \<and>
        (case step of None \<Rightarrow> True | Some k \<Rightarrow> 0 < k)"
    then have g: "getitem X (SliceKey (Slice start stop step)) = Inr (Sub Y1)"
      and pos: "case step of None \<Rightarrow> True | Some k \<Rightarrow> 0 < k" by simp_all
    have "list_slice (zip (index X) (lines X)) (Slice start stop step) =
            Inr (zip (index Y1) (lines Y1))"
      using len getitem_slice_result(2) [OF inst g] getitem_slice_result(1) [OF inst g]
      by (rule list_slice_zip)
    then show "subseq (zip (index Y1) (lines Y1)) (zip (index X) (lines X))"
      using pos by (rule list_slice_subseq)
  }
  {
    assume y: "filter_nl X search = Inr Y2"
    show "subseq (zip (index Y2) (lines Y2)) (zip (index X) (lines X))"
      by (simp add: filter_nl_result [OF inst y] zip_fst_snd)
  }
  {
    assume z: "filter_out X search = Inr Y3"
    show "subseq (zip (index Y3) (lines Y3)) (zip (index X) (lines X))"
      by (simp add: filter_out_result [OF inst z] zip_fst_snd)
  }
  {
    assume "getitem X (SliceKey (Slice start' stop' (Some k))) = Inr (Sub Y5) \<and> k < 0"
    then have g: "getitem X (SliceKey (Slice start' stop' (Some k))) = Inr (Sub Y5)"
      and neg: "k < 0" by simp_all
    have "list_slice (zip (index X) (lines X)) (Slice start' stop' (Some k)) =
            Inr (zip (index Y5) (lines Y5))"
      using len getitem_slice_result(2) [OF inst g] getitem_slice_result(1) [OF inst g]
      by (rule list_slice_zip)
    then show "subseq (rev (zip (index Y5) (lines Y5))) (zip (index X) (lines X))"
      using neg by (rule list_slice_subseq_rev)
  }
  {
    assume r: "reset_index X = Inr Y4"
    show "lines Y4 = lines X" by (rule reset_index_result(1) [OF inst r])
    show "index Y4 = map int [0..<len X]"
      by (simp add: reset_index_result(2) [OF inst r] len_def)
  }
qed

text \<open>C7 on \<open>abc\<close>: \<open>abc[1:]\<close>, the two filters, the reset and \<open>abc[::-1]\<close>.\<close>

theorem order_preserved_witness:
  "is_instance abc \<and>
   getitem abc (SliceKey (Slice (Some 1) None None)) = Inr (Sub bc) \<and>
   subseq (zip (index bc) (lines bc)) (zip (index abc) (lines abc)) \<and>
   filter_nl abc has_b = Inr only_b \<and>
   subseq (zip (index only_b) (lines only_b)) (zip (index abc) (lines abc)) \<and>
   filter_out abc has_b = Inr ac \<and>
   subseq (zip (index ac) (lines ac)) (zip (index abc) (lines abc)) \<and>
   reset_index abc = Inr abc \<and>
   getitem abc (SliceKey (Slice None None (Some (- 1)))) = Inr (Sub cba) \<and>
   (- 1 :: int) < 0 \<and>
   subseq (rev (zip (index cba) (lines cba))) (zip (index abc) (lines abc))"
  using order_preserved [where X = abc and start = "Some 1" and stop = None and step = None
      and ?Y1.0 = bc and search = has_b and ?Y2.0 = only_b and ?Y3.0 = ac and ?Y4.0 = abc
      and start' = None and stop' = None and k = "- 1" and ?Y5.0 = cba]
    abc_instance abc_slice abc_filter abc_filter_out abc_reset abc_reverse
  by (simp add: abc_def bc_def only_b_def ac_def cba_def len_def upt_rec)

text \<open>
  C7 as stated fails: \<open>abc[::-1]\<close> is a slice, and its pairs are those of \<open>abc\<close> in
  reverse order, not a subsequence of them.
\<close>

theorem reverse_slice_counterexample:
  "init (Str [97, 10, 98, 13, 10, 99]) None = Inr abc \<and>
   getitem abc (SliceKey (Slice None None (Some (- 1)))) = Inr (Sub cba) \<and>
   \<not> subseq (zip (index cba) (lines cba)) (zip (index abc) (lines abc))"
  using abc_init abc_reverse by (simp add: abc_def cba_def)

section \<open>Resetting the index\<close>

text \<open>
  C4 fails on the code: \<open>NumberedLines("\n")\<close> holds one empty line, and its
  \<open>reset_index()\<close> raises \<open>ValueError\<close> instead of returning that line numbered 0.
\<close>

theorem reset_index_empty_line_raises:
  "init (Str [10]) None = Inr blank \<and> reset_index blank = Inl ValueError"
  by (simp add: run_defs)

section \<open>Filtering\<close>

text \<open>
  C3, as the code has it. When \<open>filter\<close> and \<open>filter_out\<close> both return on an object the
  constructor can build: the index values of the two results together are those of
  \<open>X\<close>; they share no value when the index values of \<open>X\<close> are distinct; merging the two
  results by original position gives back \<open>X.lines\<close> and \<open>X.index\<close>; \<open>filter\<close> keeps
  exactly the entries whose line matches, with their index values, and \<open>filter_out\<close>
  exactly the others.
\<close>

theorem filter_complement:
  "is_instance X \<and> filter_nl X search = Inr Y \<and> filter_out X search = Inr Z \<longrightarrow>
     set (index Y) \<union> set (index Z) = set (index X) \<and>
     (distinct (index X) \<longrightarrow> set (index Y) \<inter> set (index Z) = {}) \<and>
     merge_original (map search (lines X)) (lines Y) (lines Z) = lines X \<and>
     merge_original (map search (lines X)) (index Y) (index Z) = index X \<and>
     zip (index Y) (lines Y) = filter (\<lambda>(i, line). search line) (zip (index X) (lines X)) \<and>
     zip (index Z) (lines Z) = filter (\<lambda>(i, line). \<not> search line) (zip (index X) (lines X))"
proof (intro impI, elim conjE)
  assume inst: "is_instance X" and y: "filter_nl X search = Inr Y"
    and z: "filter_out X search = Inr Z"
  define ps where "ps = zip (index X) (lines X)"
  define Q where "Q = (\<lambda>p :: int \<times> pystr. search (snd p))"
  from inst have len: "length (index X) = length (lines X)" by (simp add: is_instance_def)
  have fst_ps: "map fst ps = index X" and snd_ps: "map snd ps = lines X"
    using len by (simp_all add: ps_def)
  have flags: "map search (lines X) = map Q ps"
    by (simp add: snd_ps [symmetric] Q_def)
  have Y: "lines Y = map snd (filter Q ps)" "index Y = map fst (filter Q ps)"
    using filter_nl_result [OF inst y] by (simp_all add: ps_def Q_def)
  have Z: "lines Z = map snd (filter (\<lambda>p. \<not> Q p) ps)"
    "index Z = map fst (filter (\<lambda>p. \<not> Q p) ps)"
    using filter_out_result [OF inst z] by (simp_all add: ps_def Q_def)
  have 1: "set (index Y) \<union> set (index Z) = set (index X)"
    unfolding Y Z fst_ps [symmetric] by (rule set_filter_split)
  have 2: "distinct (index X) \<longrightarrow> set (index Y) \<inter> set (index Z) = {}"
    unfolding Y Z fst_ps [symmetric] by (intro impI) (rule distinct_filter_disjoint)
  have 3: "merge_original (map search (lines X)) (lines Y) (lines Z) = lines X"
    unfolding flags Y Z by (simp add: merge_original_filter snd_ps)
  have 4: "merge_original (map search (lines X)) (index Y) (index Z) = index X"
    unfolding flags Y Z by (simp add: merge_original_filter fst_ps)
  have 5: "zip (index Y) (lines Y) = filter (\<lambda>(i, line). search line) (zip (index X) (lines X))"
    unfolding Y by (simp add: zip_fst_snd ps_def Q_def case_prod_unfold)
  have 6: "zip (index Z) (lines Z) = filter (\<lambda>(i, line). \<not> search line) (zip (index X) (lines X))"
    unfolding Z by (simp add: zip_fst_snd ps_def Q_def case_prod_unfold)
  from 1 2 3 4 5 6
  show "set (index Y) \<union> set (index Z) = set (index X) \<and>
     (distinct (index X) \<longrightarrow> set (index Y) \<inter> set (index Z) = {}) \<and>
     merge_original (map search (lines X)) (lines Y) (lines Z) = lines X \<and>
     merge_original (map search (lines X)) (index Y) (index Z) = index X \<and>
     zip (index Y) (lines Y) = filter (\<lambda>(i, line). search line) (zip (index X) (lines X)) \<and>
     zip (index Z) (lines Z) = filter (\<lambda>(i, line). \<not> search line) (zip (index X) (lines X))"
    by blast
qed

text \<open>C3 on \<open>abc\<close> and the pattern \<open>b\<close>.\<close>

theorem filter_complement_witness:
  "is_instance abc \<and> filter_nl abc has_b = Inr only_b \<and> filter_out abc has_b = Inr ac \<and>
   set (index only_b) \<union> set (index ac) = set (index abc) \<and>
   distinct (index abc) \<and>
   set (index only_b) \<inter> set (index ac) = {} \<and>
   merge_original (map has_b (lines abc)) (lines only_b) (lines ac) = lines abc \<and>
   merge_original (map has_b (lines abc)) (index only_b) (index ac) = index abc"
proof -
  have "distinct (index abc)" by (simp add: abc_def)
  then show ?thesis
    using filter_complement [of abc has_b only_b ac] abc_instance abc_filter abc_filter_out
    by simp
qed

text \<open>
  C3 as stated fails: the constructor accepts the index \<open>[5, 5]\<close>, and then the value 5
  is in the index of both results.
\<close>

theorem filter_duplicate_index_counterexample:
  "init (Iterable [StrItem [97], StrItem [98]]) (Some [5, 5]) = Inr twice5 \<and>
   filter_nl twice5 has_b = Inr \<lparr>lines = [[98]], index = [5]\<rparr> \<and>
   filter_out twice5 has_b = Inr \<lparr>lines = [[97]], index = [5]\<rparr> \<and>
   set (index \<lparr>lines = [[98]], index = [5]\<rparr>) \<inter> set (index \<lparr>lines = [[97]], index = [5]\<rparr>)
     \<noteq> {}"
  by (simp add: run_defs)

section \<open>Totality of the operations\<close>

text \<open>
  On an object without an empty line the transformations return (a slice for every
  step but 0).
\<close>

lemma operations_total_without_empty_line:
  assumes "is_instance X" "[] \<notin> set (lines X)"
  shows "\<exists>Y. reset_index X = Inr Y"
    and "\<exists>Y. filter_nl X search = Inr Y"
    and "\<exists>Y. filter_out X search = Inr Y"
    and "step \<noteq> Some 0 \<Longrightarrow> \<exists>Y. getitem X (SliceKey (Slice start stop step)) = Inr (Sub Y)"
proof -
  show "\<exists>Y. reset_index X = Inr Y"
    using assms by (simp add: reset_index_instance)
  have "[] \<notin> snd ` set (filter Q (zip (index X) (lines X)))" for Q
    using assms(2) by (auto dest: set_zip_rightD)
  then show "\<exists>Y. filter_nl X search = Inr Y" and "\<exists>Y. filter_out X search = Inr Y"
    by (simp_all add: filter_nl_instance [OF assms(1)] filter_out_instance [OF assms(1)] Let_def)
  show "\<exists>Y. getitem X (SliceKey (Slice start stop step)) = Inr (Sub Y)" if "step \<noteq> Some 0"
    using getitem_slice_without_empty_line [OF assms that] by blast
qed

text \<open>
  \<open>format()\<close> returns on every object whose index values have at most 4300 digits, and
  \<open>to_list()\<close> on every object.
\<close>

lemma format_default_total:
  assumes "is_instance X" "list_all (\<lambda>i. \<bar>i\<bar> < 10 ^ int_max_str_digits) (index X)"
  shows "\<exists>out. format X None = Inr out"
  using format_default_lines [OF assms] by blast

text \<open>
  C2 fails on the code: on \<open>NumberedLines("a\n\nb")\<close>, \<open>reset_index()\<close>, \<open>filter\<close> with a
  pattern that matches the empty line, \<open>filter_out\<close> with a pattern that does not, and
  the slice \<open>[:]\<close> all raise the constructor's length-mismatch \<open>ValueError\<close>.
\<close>

theorem operations_raise_on_empty_line:
  "init (Str [97, 10, 10, 98]) None = Inr a_blank_b \<and>
   reset_index a_blank_b = Inl ValueError \<and>
   filter_nl a_blank_b is_empty = Inl ValueError \<and>
   filter_out a_blank_b has_b = Inl ValueError \<and>
   getitem a_blank_b (SliceKey (Slice None None None)) = Inl ValueError"
  by (simp add: run_defs upt_rec)

section \<open>Formatting\<close>

text \<open>Runs of \<open>format\<close>: \<open>"00: a"\<close>, \<open>"01: b"\<close>, \<open>"02: c"\<close> for \<open>abc\<close>, and so on.\<close>

lemma below_limit [simp]:
  fixes i :: int
  assumes "i < 1000"
  shows "i < 10 ^ int_max_str_digits" and "\<not> 10 ^ int_max_str_digits \<le> i"
proof -
  have "(10 :: int) ^ 3 \<le> 10 ^ int_max_str_digits"
    by (rule power_increasing) (simp_all add: int_max_str_digits_def)
  with assms show "i < 10 ^ int_max_str_digits" and "\<not> 10 ^ int_max_str_digits \<le> i"
    by simp_all
qed

lemmas format_defs =
  format_def str_int_def format_0d_def abc_def wide_def negs_def huge_def

lemma str_nat_0: "str_nat 0 = [48]" by (simp add: str_nat.simps)
lemma str_nat_1: "str_nat (Suc 0) = [49]" by (simp add: str_nat.simps)
lemma str_nat_2: "str_nat 2 = [50]" by (simp add: str_nat.simps)
lemma str_nat_5: "str_nat 5 = [53]" by (simp add: str_nat.simps)
lemma str_nat_7: "str_nat 7 = [55]" by (simp add: str_nat.simps)
lemma str_nat_120: "str_nat 120 = [49, 50, 48]" by (simp add: str_nat.simps)

lemmas str_nat_runs = str_nat_0 str_nat_1 str_nat_2 str_nat_5 str_nat_7 str_nat_120

lemma replicate_runs:
  "replicate 2 x = [x, x]" "replicate 3 x = [x, x, x]" "replicate 4 x = [x, x, x, x]"
  by (simp_all add: numeral_2_eq_2 numeral_3_eq_3 numeral_Bit0 )

lemma abc_format:
  "format abc None = Inr [[48, 48, 58, 32, 97], [48, 49, 58, 32, 98], [48, 50, 58, 32, 99]]"
  by (simp add: format_defs str_nat_runs replicate_runs)

lemma wide_format:
  "format wide None = Inr [[48, 48, 55, 58, 32, 97], [49, 50, 48, 58, 32, 98]]"
  by (simp add: format_defs str_nat_runs replicate_runs)

lemma wide_format_5:
  "format wide (Some 5) =
     Inr [[48, 48, 48, 48, 55, 58, 32, 97], [48, 48, 49, 50, 48, 58, 32, 98]]"
  by (simp add: format_defs str_nat_runs replicate_runs)

lemma negs_format:
  "format negs None = Inr [[45, 49, 50, 48, 58, 32, 97], [45, 53, 58, 32, 98]]"
  by (simp add: format_defs str_nat_runs replicate_runs)

lemma negs_format_5:
  "format negs (Some 5) =
     Inr [[45, 48, 49, 50, 48, 58, 32, 97], [45, 48, 48, 48, 53, 58, 32, 98]]"
  by (simp add: format_defs str_nat_runs replicate_runs)

lemma huge_init: "init (Iterable [StrItem [97]]) (Some [10 ^ int_max_str_digits]) = Inr huge"
  by (simp add: init_def splitlines_def is_linebreak_def huge_def)

lemma huge_format: "format huge None = Inl ValueError"
  by (simp add: format_defs)

lemma wide_init: "init (Iterable [StrItem [97], StrItem [98]]) (Some [7, 120]) = Inr wide"
  by (simp add: init_def splitlines_def is_linebreak_def wide_def)

lemma wide_instance: "is_instance wide"
  using wide_init by (rule init_is_instance)

lemma huge_instance: "is_instance huge"
  using huge_init by (rule init_is_instance)

text \<open>
  C9, as the code has it. On an object the constructor can build whose index values
  all have at most 4300 decimal digits, \<open>format()\<close> returns one string per line: the
  index value as a zero-padded decimal of width \<open>max(2, d)\<close>, \<open>d\<close> the number of decimal
  digits of the largest index value (of 0 when there is none), then \<open>": "\<close>, then the
  line. Whenever \<open>format(pad)\<close> returns, its strings are the same with the width \<open>pad\<close>.
  With an index value of more than 4300 digits \<open>format\<close> raises \<open>ValueError\<close>, with or
  without \<open>pad\<close>. (The code takes \<open>len(str(max_idx))\<close>, which counts the sign of a
  negative maximum; every index value is then negative and at least as long, so no
  string changes.)
\<close>

theorem format_lines:
  "is_instance X \<longrightarrow>
     (list_all (\<lambda>i. \<bar>i\<bar> < 10 ^ int_max_str_digits) (index X) \<longrightarrow>
        (\<exists>out. format X None = Inr out \<and> length out = len X \<and>
           (\<forall>k<len X. \<exists>r.
              out ! k = r @ [58, 32] @ lines X ! k \<and>
              zero_padded_decimal
                (max 2 (decimal_digits (if index X = [] then 0 else Max (set (index X)))))
                (index X ! k) r))) \<and>
     (format X (Some p) = Inr out' \<longrightarrow>
        length out' = len X \<and>
        (\<forall>k<len X. \<exists>r.
           out' ! k = r @ [58, 32] @ lines X ! k \<and>
           zero_padded_decimal (nat p) (index X ! k) r)) \<and>
     (\<not> list_all (\<lambda>i. \<bar>i\<bar> < 10 ^ int_max_str_digits) (index X) \<longrightarrow>
        format X pad_opt = Inl ValueError)"
  using format_default_lines [of X] format_pad_lines [of X p out']
    format_long_index_raises [of X pad_opt]
  by blast

text \<open>
  C9 on \<open>wide\<close>, numbered 7 and 120: \<open>"007: a"\<close> and \<open>"120: b"\<close> without \<open>pad\<close>,
  \<open>"00007: a"\<close> and \<open>"00120: b"\<close> with \<open>pad=5\<close>; and on \<open>huge\<close>, which raises.
\<close>

theorem format_lines_witness:
  "is_instance wide \<and>
   list_all (\<lambda>i. \<bar>i\<bar> < 10 ^ int_max_str_digits) (index wide) \<and>
   (\<exists>out. format wide None = Inr out \<and> length out = len wide \<and>
      (\<forall>k<len wide. \<exists>r.
         out ! k = r @ [58, 32] @ lines wide ! k \<and>
         zero_padded_decimal
           (max 2 (decimal_digits (if index wide = [] then 0 else Max (set (index wide)))))
           (index wide ! k) r)) \<and>
   format wide None = Inr [[48, 48, 55, 58, 32, 97], [49, 50, 48, 58, 32, 98]] \<and>
   max 2 (decimal_digits (if index wide = [] then 0 else Max (set (index wide)))) = 3 \<and>
   zero_padded_decimal 3 7 [48, 48, 55] \<and>
   zero_padded_decimal 3 120 [49, 50, 48] \<and>
   format wide (Some 5) =
     Inr [[48, 48, 48, 48, 55, 58, 32, 97], [48, 48, 49, 50, 48, 58, 32, 98]] \<and>
   zero_padded_decimal 5 7 [48, 48, 48, 48, 55] \<and>
   zero_padded_decimal 5 120 [48, 48, 49, 50, 48] \<and>
   is_instance huge \<and>
   \<not> list_all (\<lambda>i. \<bar>i\<bar> < 10 ^ int_max_str_digits) (index huge) \<and>
   format huge None = Inl ValueError"
proof -
  have small: "list_all (\<lambda>i. \<bar>i\<bar> < 10 ^ int_max_str_digits) (index wide)"
    by (simp add: wide_def)
  have big: "\<not> list_all (\<lambda>i. \<bar>i\<bar> < 10 ^ int_max_str_digits) (index huge)"
    by (simp add: huge_def)
  have w: "max 2 (decimal_digits (if index wide = [] then 0 else Max (set (index wide)))) = 3"
    by (simp add: wide_def decimal_digits_def num_digits.simps)
  have z: "zero_padded_decimal 3 7 [48, 48, 55]" "zero_padded_decimal 3 120 [49, 50, 48]"
    by (simp_all add: zero_padded_decimal_def is_decimal_def digits_value_def
        decimal_digits_def num_digits.simps)
  note t = format_lines [where X = wide and p = 5 and pad_opt = None
      and out' = "[[48, 48, 48, 48, 55, 58, 32, 97], [48, 48, 49, 50, 48, 58, 32, 98]]"]
  note h = format_lines [where X = huge and p = 5 and pad_opt = None and out' = "[]"]
  from t wide_instance small
  have 1: "\<exists>out. format wide None = Inr out \<and> length out = len wide \<and>
      (\<forall>k<len wide. \<exists>r.
         out ! k = r @ [58, 32] @ lines wide ! k \<and>
         zero_padded_decimal
           (max 2 (decimal_digits (if index wide = [] then 0 else Max (set (index wide)))))
           (index wide ! k) r)"
    by blast
  from t wide_instance wide_format_5
  have 2: "\<forall>k<len wide. \<exists>r.
      [[48, 48, 48, 48, 55, 58, 32, 97], [48, 48, 49, 50, 48, 58, 32, 98]] ! k =
        r @ [58, 32] @ lines wide ! k \<and>
      zero_padded_decimal (nat 5) (index wide ! k) r"
    by blast
  from 2 [rule_format, of 0]
  have "\<exists>r. [48, 48, 48, 48, 55] @ [58, 32, 97] = r @ [58, 32, 97] \<and>
      zero_padded_decimal 5 7 r"
    by (simp add: wide_def len_def)
  then have 20: "zero_padded_decimal 5 7 [48, 48, 48, 48, 55]"
    by (metis append_same_eq)
  from 2 [rule_format, of 1]
  have "\<exists>r. [48, 48, 49, 50, 48] @ [58, 32, 98] = r @ [58, 32, 98] \<and>
      zero_padded_decimal 5 120 r"
    by (simp add: wide_def len_def)
  then have 21: "zero_padded_decimal 5 120 [48, 48, 49, 50, 48]"
    by (metis append_same_eq)
  from h huge_instance big have 3: "format huge None = Inl ValueError" by blast
  from wide_instance small 1 wide_format w z wide_format_5 20 21 huge_instance big 3
  show ?thesis by blast
qed

text \<open>
  C9 as stated fails: \<open>NumberedLines(["a"], [10 ** 4300])\<close> is an object, and its
  \<open>format()\<close> raises \<open>ValueError\<close> instead of returning a string.
\<close>

theorem format_huge_index_counterexample:
  "init (Iterable [StrItem [97]]) (Some [10 ^ int_max_str_digits]) = Inr huge \<and>
   is_instance huge \<and>
   format huge None = Inl ValueError \<and>
   format huge (Some 2) = Inl ValueError"
  using huge_init huge_instance by (simp add: format_defs)

end
